theory Spec2Isabelle
  imports Main
begin

unbundle bit_operations_syntax

section \<open>The pin-control capability\<close>

text \<open>
  The driver \<^verbatim>\<open>raspi_peri/rtc/ds1302.py\<close> talks to the chip only through a \<^verbatim>\<open>GPIO\<close>
  object of the external package \<^verbatim>\<open>raspi_io\<close>. The embedding keeps that object as an
  explicit state: the log of the calls made so far, in order, and the levels that the
  coming \<^verbatim>\<open>input\<close> calls will sample.
\<close>

datatype direction = IN | OUT

datatype numbering = BCM | BOARD

definition LOW :: int where
  "LOW = 0"

definition HIGH :: int where
  "HIGH = 1"

datatype call =
    Setmode numbering
  | Setup "int list" direction "int option"
  | Output int int
  | Input int
  | Cleanup "int list"

record gpio =
  calls :: "call list"
  feed :: "nat \<Rightarrow> bool"

text \<open>
  Modelled from the spec: the methods of \<^verbatim>\<open>raspi_io.GPIO\<close> (section 6, the consumed
  pin-control capability: configureMode, setLevel, getLevel, release). Each call is
  appended to the log; \<^verbatim>\<open>input\<close> returns the next level of the feed, 1 or 0.
\<close>

definition gpio_setmode :: "numbering \<Rightarrow> gpio \<Rightarrow> gpio" where
  "gpio_setmode m g = g\<lparr>calls := calls g @ [Setmode m]\<rparr>"

definition gpio_setup :: "int list \<Rightarrow> direction \<Rightarrow> int option \<Rightarrow> gpio \<Rightarrow> gpio" where
  "gpio_setup ps dir initial g = g\<lparr>calls := calls g @ [Setup ps dir initial]\<rparr>"

definition gpio_output :: "int \<Rightarrow> int \<Rightarrow> gpio \<Rightarrow> gpio" where
  "gpio_output pin v g = g\<lparr>calls := calls g @ [Output pin v]\<rparr>"

definition gpio_input :: "int \<Rightarrow> gpio \<Rightarrow> int \<times> gpio" where
  "gpio_input pin g =
     (if feed g 0 then HIGH else LOW,
      g\<lparr>calls := calls g @ [Input pin], feed := (\<lambda>n. feed g (Suc n))\<rparr>)"

definition gpio_cleanup :: "int list \<Rightarrow> gpio \<Rightarrow> gpio" where
  "gpio_cleanup ps g = g\<lparr>calls := calls g @ [Cleanup ps]\<rparr>"

text \<open>
  Modelled from the spec: \<^verbatim>\<open>raspi_io.GPIOTimingContentManager\<close> (section 4.1): entering the
  \<^verbatim>\<open>with\<close> block runs \<^verbatim>\<open>start(gpio)\<close>, leaving it runs \<^verbatim>\<open>end(gpio)\<close>, also when the body
  does not finish normally.
\<close>

definition timing :: "(gpio \<Rightarrow> gpio) \<Rightarrow> (gpio \<Rightarrow> gpio) \<Rightarrow> (gpio \<Rightarrow> 'a \<times> gpio) \<Rightarrow> gpio \<Rightarrow> 'a \<times> gpio" where
  "timing start end body g = (case body (start g) of (r, g') \<Rightarrow> (r, end g'))"

section \<open>The driver: constants, framing and byte transport\<close>

record ds1302 =
  clk_pin :: int
  io_pin :: int
  rst_pin :: int

definition REG_SIZE :: nat where
  "REG_SIZE = 7"

definition RAM_SIZE :: nat where
  "RAM_SIZE = 31"

definition DT_STR_FMT :: string where
  "DT_STR_FMT = ''%S %M %H %d %m %u %y''"

definition WP_REG_READ :: int where
  "WP_REG_READ = 0x8f"

definition WP_REG_WRITE :: int where
  "WP_REG_WRITE = 0x8e"

definition CHR_REG_READ :: int where
  "CHR_REG_READ = 0x91"

definition CHR_REG_WRITE :: int where
  "CHR_REG_WRITE = 0x90"

definition REG_BURST_READ :: int where
  "REG_BURST_READ = 0xbf"

definition REG_BURST_WRITE :: int where
  "REG_BURST_WRITE = 0xbe"

definition RAM_BURST_READ :: int where
  "RAM_BURST_READ = 0xff"

definition RAW_BURST_WRITE :: int where
  "RAW_BURST_WRITE = 0xfe"

text \<open>\<^verbatim>\<open>_sleep\<close> waits \<^verbatim>\<open>CLK_DELAY\<close> of real time and touches no pin.\<close>

definition sleep :: "gpio \<Rightarrow> gpio" where
  "sleep g = g"

definition start_tx :: "ds1302 \<Rightarrow> gpio \<Rightarrow> gpio" where
  "start_tx d g = gpio_output (rst_pin d) HIGH (gpio_output (clk_pin d) LOW g)"

definition end_tx :: "ds1302 \<Rightarrow> gpio \<Rightarrow> gpio" where
  "end_tx d g =
     gpio_output (rst_pin d) LOW
       (gpio_output (clk_pin d) LOW
         (gpio_setup [io_pin d] IN None g))"

text \<open>The loop of \<^verbatim>\<open>_read_byte\<close>, over the values of \<^verbatim>\<open>range(8)\<close> still to come.\<close>

fun read_bits :: "ds1302 \<Rightarrow> nat list \<Rightarrow> int \<Rightarrow> gpio \<Rightarrow> int \<times> gpio" where
  "read_bits d [] byte g = (byte, g)"
| "read_bits d (i # rest) byte g =
     (let g1 = sleep (gpio_output (clk_pin d) HIGH g);
          g2 = sleep (gpio_output (clk_pin d) LOW g1);
          (bit, g3) = gpio_input (io_pin d) g2
      in read_bits d rest (byte OR (2 ^ i * bit)) g3)"

definition read_byte :: "ds1302 \<Rightarrow> gpio \<Rightarrow> int \<times> gpio" where
  "read_byte d g = read_bits d [0..<8] 0 (gpio_setup [io_pin d] IN None g)"

text \<open>The loop of \<^verbatim>\<open>_write_byte\<close>; the loop variable is not used.\<close>

fun write_bits :: "ds1302 \<Rightarrow> nat list \<Rightarrow> int \<Rightarrow> gpio \<Rightarrow> gpio" where
  "write_bits d [] byte g = g"
| "write_bits d (i # rest) byte g =
     (let g1 = sleep (gpio_output (clk_pin d) LOW g);
          g2 = gpio_output (io_pin d) (byte AND 0x01) g1;
          byte' = drop_bit 1 byte;
          g3 = sleep (gpio_output (clk_pin d) HIGH g2)
      in write_bits d rest byte' g3)"

definition write_byte :: "ds1302 \<Rightarrow> int \<Rightarrow> gpio \<Rightarrow> gpio" where
  "write_byte d byte g = write_bits d [0..<8] byte (gpio_setup [io_pin d] OUT None g)"

section \<open>The Python library functions the driver calls\<close>

text \<open>
  The codec of the calendar registers is written with the standard library:
  \<^verbatim>\<open>strftime\<close>, \<^verbatim>\<open>str.split\<close>, \<^verbatim>\<open>int(s, 16)\<close>, \<^verbatim>\<open>"{:x}".format\<close>, \<^verbatim>\<open>" ".join\<close> and
  \<^verbatim>\<open>datetime.strptime\<close>. They are embedded here as CPython 3 (3.6 and later, where
  \<^verbatim>\<open>strptime\<close> knows \<^verbatim>\<open>%u\<close>) defines them, on strings of one-byte characters.
\<close>

datatype error = ValueError | TypeError

text \<open>The characters below 256 that Python counts as white space.\<close>

definition is_space :: "char \<Rightarrow> bool" where
  "is_space c = (c \<in> set [CHR 0x09, CHR 0x0A, CHR 0x0B, CHR 0x0C, CHR 0x0D,
                            CHR 0x1C, CHR 0x1D, CHR 0x1E, CHR 0x1F, CHR 0x20,
                            CHR 0x85, CHR 0xA0])"

definition digit_chars :: string where
  "digit_chars = ''0123456789abcdef''"

function hex_digits :: "nat \<Rightarrow> string" where
  "hex_digits n =
     (if n < 16 then [digit_chars ! n] else hex_digits (n div 16) @ [digit_chars ! (n mod 16)])"
  by pat_completeness auto
termination
  by (relation "measure id") auto

declare hex_digits.simps [simp del]

function dec_digits :: "nat \<Rightarrow> string" where
  "dec_digits n =
     (if n < 10 then [digit_chars ! n] else dec_digits (n div 10) @ [digit_chars ! (n mod 10)])"
  by pat_completeness auto
termination
  by (relation "measure id") auto

declare dec_digits.simps [simp del]

text \<open>\<^verbatim>\<open>"{:x}".format(x)\<close>: lower-case hexadecimal, no padding.\<close>

definition format_x :: "int \<Rightarrow> string" where
  "format_x x = (if x < 0 then CHR ''-'' # hex_digits (nat (- x)) else hex_digits (nat x))"

text \<open>\<^verbatim>\<open>sep.join(parts)\<close>.\<close>

fun join :: "string \<Rightarrow> string list \<Rightarrow> string" where
  "join sep [] = []"
| "join sep [x] = x"
| "join sep (x # y # zs) = x @ sep @ join sep (y # zs)"

text \<open>\<^verbatim>\<open>s.split()\<close>: the maximal runs of characters that are not white space.\<close>

fun split_ws :: "string \<Rightarrow> string \<Rightarrow> string list" where
  "split_ws w [] = (if w = [] then [] else [w])"
| "split_ws w (c # cs) =
     (if is_space c then (if w = [] then split_ws [] cs else w # split_ws [] cs)
      else split_ws (w @ [c]) cs)"

definition split :: "string \<Rightarrow> string list" where
  "split s = split_ws [] s"

definition digit_val :: "char \<Rightarrow> nat option" where
  "digit_val c = map_of
     [(CHR ''0'', 0), (CHR ''1'', 1), (CHR ''2'', 2), (CHR ''3'', 3), (CHR ''4'', 4),
      (CHR ''5'', 5), (CHR ''6'', 6), (CHR ''7'', 7), (CHR ''8'', 8), (CHR ''9'', 9),
      (CHR ''a'', 10), (CHR ''b'', 11), (CHR ''c'', 12), (CHR ''d'', 13), (CHR ''e'', 14),
      (CHR ''f'', 15), (CHR ''A'', 10), (CHR ''B'', 11), (CHR ''C'', 12), (CHR ''D'', 13),
      (CHR ''E'', 14), (CHR ''F'', 15)] c"

definition strip :: "string \<Rightarrow> string" where
  "strip s = rev (dropWhile is_space (rev (dropWhile is_space s)))"

text \<open>
  \<^verbatim>\<open>int(s, base)\<close> for base 10 and 16 on unsigned literals: surrounding white space is
  dropped, base 16 accepts the prefix \<^verbatim>\<open>0x\<close>, and anything but digits of the base raises
  \<^verbatim>\<open>ValueError\<close>. Signs and digit-group underscores do not occur in the driver's strings.
\<close>

definition py_int :: "string \<Rightarrow> nat \<Rightarrow> error + int" where
  "py_int s base =
     (let t = strip s;
          u = (if base = 16 \<and> (take 2 t = ''0x'' \<or> take 2 t = ''0X'') then drop 2 t else t)
      in if u = [] \<or> \<not> list_all (\<lambda>c. case digit_val c of None \<Rightarrow> False | Some v \<Rightarrow> v < base) u
         then Inl ValueError
         else Inr (foldl (\<lambda>a c. case digit_val c of None \<Rightarrow> a | Some v \<Rightarrow> a * int base + int v) 0 u))"

subsection \<open>Dates\<close>

record datetime =
  year :: int
  month :: int
  day :: int
  hour :: int
  minute :: int
  second :: int
  microsecond :: int

definition is_leap :: "int \<Rightarrow> bool" where
  "is_leap y = (y mod 4 = 0 \<and> (y mod 100 \<noteq> 0 \<or> y mod 400 = 0))"

definition DAYS_IN_MONTH :: "int list" where
  "DAYS_IN_MONTH = [-1, 31, 28, 31, 30, 31, 30, 31, 31, 30, 31, 30, 31]"

definition DAYS_BEFORE_MONTH :: "int list" where
  "DAYS_BEFORE_MONTH = [-1, 0, 31, 59, 90, 120, 151, 181, 212, 243, 273, 304, 334]"

definition days_in_month :: "int \<Rightarrow> int \<Rightarrow> int" where
  "days_in_month y m = (if m = 2 \<and> is_leap y then 29 else DAYS_IN_MONTH ! nat m)"

definition days_before_year :: "int \<Rightarrow> int" where
  "days_before_year y = (y - 1) * 365 + (y - 1) div 4 - (y - 1) div 100 + (y - 1) div 400"

definition days_before_month :: "int \<Rightarrow> int \<Rightarrow> int" where
  "days_before_month y m = DAYS_BEFORE_MONTH ! nat m + (if m > 2 \<and> is_leap y then 1 else 0)"

definition ymd2ord :: "int \<Rightarrow> int \<Rightarrow> int \<Rightarrow> int" where
  "ymd2ord y m d = days_before_year y + days_before_month y m + d"

text \<open>The checks of the \<^verbatim>\<open>date\<close> and \<^verbatim>\<open>datetime\<close> constructors.\<close>

definition check_date_fields :: "int \<Rightarrow> int \<Rightarrow> int \<Rightarrow> bool" where
  "check_date_fields y m d =
     (1 \<le> y \<and> y \<le> 9999 \<and> 1 \<le> m \<and> m \<le> 12 \<and> 1 \<le> d \<and> d \<le> days_in_month y m)"

definition check_time_fields :: "int \<Rightarrow> int \<Rightarrow> int \<Rightarrow> int \<Rightarrow> bool" where
  "check_time_fields h mi s us =
     (0 \<le> h \<and> h \<le> 23 \<and> 0 \<le> mi \<and> mi \<le> 59 \<and> 0 \<le> s \<and> s \<le> 59 \<and> 0 \<le> us \<and> us \<le> 999999)"

definition new_datetime :: "int \<Rightarrow> int \<Rightarrow> int \<Rightarrow> int \<Rightarrow> int \<Rightarrow> int \<Rightarrow> int \<Rightarrow> error + datetime" where
  "new_datetime y m d h mi s us =
     (if check_date_fields y m d \<and> check_time_fields h mi s us
      then Inr \<lparr>year = y, month = m, day = d, hour = h, minute = mi, second = s, microsecond = us\<rparr>
      else Inl ValueError)"

text \<open>Every \<^verbatim>\<open>datetime\<close> object went through the constructor.\<close>

definition valid_datetime :: "datetime \<Rightarrow> bool" where
  "valid_datetime dt =
     (check_date_fields (year dt) (month dt) (day dt) \<and>
      check_time_fields (hour dt) (minute dt) (second dt) (microsecond dt))"

definition isoweekday :: "datetime \<Rightarrow> int" where
  "isoweekday dt =
     (let r = ymd2ord (year dt) (month dt) (day dt) mod 7 in if r = 0 then 7 else r)"

subsection \<open>strftime\<close>

definition two_digits :: "int \<Rightarrow> string" where
  "two_digits n = (let s = dec_digits (nat n) in replicate (2 - length s) CHR ''0'' @ s)"

text \<open>
  The conversions the driver's format uses: zero-padded second, minute, hour, day of
  month, month and two-digit year, and the ISO weekday (1 is Monday).
\<close>

definition conversion :: "datetime \<Rightarrow> char \<Rightarrow> string option" where
  "conversion dt k =
     (if k = CHR ''S'' then Some (two_digits (second dt))
      else if k = CHR ''M'' then Some (two_digits (minute dt))
      else if k = CHR ''H'' then Some (two_digits (hour dt))
      else if k = CHR ''d'' then Some (two_digits (day dt))
      else if k = CHR ''m'' then Some (two_digits (month dt))
      else if k = CHR ''u'' then Some (dec_digits (nat (isoweekday dt)))
      else if k = CHR ''y'' then Some (two_digits (year dt mod 100))
      else None)"

text \<open>A conversion outside that list is copied to the output as it stands.\<close>

fun strftime :: "datetime \<Rightarrow> string \<Rightarrow> string" where
  "strftime dt [] = []"
| "strftime dt [c] = [c]"
| "strftime dt (c # k # cs) =
     (if c = CHR ''%''
      then (case conversion dt k of
              Some s \<Rightarrow> s @ strftime dt cs
            | None \<Rightarrow> c # k # strftime dt cs)
      else c # strftime dt (k # cs))"

subsection \<open>strptime\<close>

text \<open>
  \<^verbatim>\<open>_strptime\<close> turns the format into a regular expression: a directive becomes a named
  group, a run of white space becomes \<^verbatim>\<open>\s+\<close>, any other character stands for itself.
  The groups of the numeric directives are alternatives of fixed-length sequences of
  character classes, so a group is kept as the list of its alternatives, in order, and
  a class as the string of its members.
\<close>

datatype item = Dir char "string list list" | Spaces | Lit char

definition digit :: string where
  "digit = ''0123456789''"

definition nonzero :: string where
  "nonzero = ''123456789''"

text \<open>
  The table of \<^verbatim>\<open>TimeRE\<close>, for the directives of the driver's format:
  \<^verbatim>\<open>S: 6[0-1]|[0-5]\d|\d\<close>, \<^verbatim>\<open>M: [0-5]\d|\d\<close>, \<^verbatim>\<open>H: 2[0-3]|[0-1]\d|\d\<close>,
  \<^verbatim>\<open>d: 3[0-1]|[1-2]\d|0[1-9]|[1-9]| [1-9]\<close>, \<^verbatim>\<open>m: 1[0-2]|0[1-9]|[1-9]\<close>, \<^verbatim>\<open>u: [1-7]\<close>,
  \<^verbatim>\<open>y: \d\d\<close>. A directive outside the table is reported as a bad directive.
\<close>

definition directive_re :: "char \<Rightarrow> string list list option" where
  "directive_re k =
     (if k = CHR ''S'' then Some [[''6'', ''01''], [''012345'', digit], [digit]]
      else if k = CHR ''M'' then Some [[''012345'', digit], [digit]]
      else if k = CHR ''H'' then Some [[''2'', ''0123''], [''01'', digit], [digit]]
      else if k = CHR ''d'' then
        Some [[''3'', ''01''], [''12'', digit], [''0'', nonzero], [nonzero], ['' '', nonzero]]
      else if k = CHR ''m'' then Some [[''1'', ''012''], [''0'', nonzero], [nonzero]]
      else if k = CHR ''u'' then Some [[''1234567'']]
      else if k = CHR ''y'' then Some [[digit, digit]]
      else None)"

function pattern :: "string \<Rightarrow> item list option" where
  "pattern [] = Some []"
| "pattern (c # cs) =
     (if c = CHR ''%'' then
        (case cs of
           [] \<Rightarrow> None
         | k # ks \<Rightarrow>
             (case directive_re k of
                None \<Rightarrow> None
              | Some alts \<Rightarrow> map_option (Cons (Dir k alts)) (pattern ks)))
      else if is_space c then map_option (Cons Spaces) (pattern (dropWhile is_space cs))
      else map_option (Cons (Lit c)) (pattern cs))"
  by pat_completeness auto
termination
  by (relation "measure length") (auto simp: length_dropWhile_le less_Suc_eq_le)

text \<open>One alternative against the front of the text: the matched part and the rest.\<close>

fun match_alt :: "string list \<Rightarrow> string \<Rightarrow> (string \<times> string) option" where
  "match_alt [] s = Some ([], s)"
| "match_alt (cls # alt) [] = None"
| "match_alt (cls # alt) (c # s) =
     (if c \<in> set cls then map_option (\<lambda>(t, r). (c # t, r)) (match_alt alt s) else None)"

text \<open>
  Matching from the start of the text, with the backtracking of \<^verbatim>\<open>re\<close>: the alternatives
  of a group are tried in order (\<open>try_alts\<close>), \<^verbatim>\<open>\s+\<close> takes the longest run first and
  at least one character (\<open>try_spaces\<close>, counting down). The result is the text of
  each group and what is left after the match.
\<close>

function (sequential) re_match :: "item list \<Rightarrow> string \<Rightarrow> ((char \<times> string) list \<times> string) option"
  and try_alts :: "char \<Rightarrow> string list list \<Rightarrow> item list \<Rightarrow> string \<Rightarrow> ((char \<times> string) list \<times> string) option"
  and try_spaces :: "nat \<Rightarrow> item list \<Rightarrow> string \<Rightarrow> ((char \<times> string) list \<times> string) option"
where
  "re_match [] s = Some ([], s)"
| "re_match (Lit c # its) s =
     (case s of [] \<Rightarrow> None | x # xs \<Rightarrow> if x = c then re_match its xs else None)"
| "re_match (Spaces # its) s = try_spaces (length (takeWhile is_space s)) its s"
| "re_match (Dir k alts # its) s = try_alts k alts its s"
| "try_alts k [] its s = None"
| "try_alts k (alt # alts) its s =
     (case match_alt alt s of
        None \<Rightarrow> try_alts k alts its s
      | Some (t, r) \<Rightarrow>
          (case re_match its r of
             Some (found, e) \<Rightarrow> Some ((k, t) # found, e)
           | None \<Rightarrow> try_alts k alts its s))"
| "try_spaces 0 its s = None"
| "try_spaces (Suc n) its s =
     (case re_match its (drop (Suc n) s) of
        Some r \<Rightarrow> Some r
      | None \<Rightarrow> try_spaces n its s)"
  by pat_completeness auto
termination
  by (relation "inv_image (less_than <*lex*> less_than) (\<lambda>x. case x of
        Inl (its, s) \<Rightarrow> (2 * length its, 0)
      | Inr (Inl (k, alts, its, s)) \<Rightarrow> (2 * length its + 1, length alts)
      | Inr (Inr (n, its, s)) \<Rightarrow> (2 * length its + 1, n))") auto

text \<open>The values \<^verbatim>\<open>_strptime\<close> collects, with their defaults.\<close>

record parsed =
  p_year :: "int option"
  p_month :: int
  p_day :: int
  p_hour :: int
  p_minute :: int
  p_second :: int
  p_weekday :: "int option"

definition parsed_default :: parsed where
  "parsed_default =
     \<lparr>p_year = None, p_month = 1, p_day = 1, p_hour = 0, p_minute = 0, p_second = 0,
      p_weekday = None\<rparr>"

text \<open>One round of the loop over the groups found; a two-digit year below 69 is 20xx.\<close>

definition convert :: "char \<times> string \<Rightarrow> parsed \<Rightarrow> error + parsed" where
  "convert kv p =
     (case py_int (snd kv) 10 of
        Inl e \<Rightarrow> Inl e
      | Inr n \<Rightarrow>
          (let k = fst kv in
           if k = CHR ''y'' then Inr (p\<lparr>p_year := Some (if n \<le> 68 then n + 2000 else n + 1900)\<rparr>)
           else if k = CHR ''m'' then Inr (p\<lparr>p_month := n\<rparr>)
           else if k = CHR ''d'' then Inr (p\<lparr>p_day := n\<rparr>)
           else if k = CHR ''H'' then Inr (p\<lparr>p_hour := n\<rparr>)
           else if k = CHR ''M'' then Inr (p\<lparr>p_minute := n\<rparr>)
           else if k = CHR ''S'' then Inr (p\<lparr>p_second := n\<rparr>)
           else if k = CHR ''u'' then Inr (p\<lparr>p_weekday := Some (n - 1)\<rparr>)
           else Inr p))"

fun convert_all :: "(char \<times> string) list \<Rightarrow> parsed \<Rightarrow> error + parsed" where
  "convert_all [] p = Inr p"
| "convert_all (kv # kvs) p =
     (case convert kv p of Inl e \<Rightarrow> Inl e | Inr p' \<Rightarrow> convert_all kvs p')"

text \<open>
  \<^verbatim>\<open>datetime.strptime(data, format)\<close>: no match, text left over, an impossible date and a
  field the constructor refuses all raise \<^verbatim>\<open>ValueError\<close>. The weekday found is kept in
  the time tuple only; the \<^verbatim>\<open>datetime\<close> is built from the six date and time fields.
\<close>

definition strptime :: "string \<Rightarrow> string \<Rightarrow> error + datetime" where
  "strptime data format =
     (case pattern format of
        None \<Rightarrow> Inl ValueError
      | Some re \<Rightarrow>
          (case re_match re data of
             None \<Rightarrow> Inl ValueError
           | Some (found, rest) \<Rightarrow>
               if rest \<noteq> [] then Inl ValueError
               else
                 (case convert_all found parsed_default of
                    Inl e \<Rightarrow> Inl e
                  | Inr p \<Rightarrow>
                      (let y = (case p_year p of None \<Rightarrow> 1900 | Some y \<Rightarrow> y) in
                       if \<not> check_date_fields y (p_month p) (p_day p) then Inl ValueError
                       else new_datetime y (p_month p) (p_day p)
                              (p_hour p) (p_minute p) (p_second p) 0))))"

section \<open>The driver: register and RAM operations\<close>

text \<open>
  The constructor: numbering mode, clock and reset as outputs at low level, then one
  transaction that clears write protection and one that disables the charger.
\<close>

definition init :: "int \<Rightarrow> int \<Rightarrow> int \<Rightarrow> numbering \<Rightarrow> gpio \<Rightarrow> ds1302 \<times> gpio" where
  "init clk io rst mode g =
     (let g1 = gpio_setmode mode g;
          d = \<lparr>clk_pin = clk, io_pin = io, rst_pin = rst\<rparr>;
          g2 = gpio_setup [clk_pin d, rst_pin d] OUT (Some LOW) g1;
          (u, g3) = timing (start_tx d) (end_tx d)
                      (\<lambda>g. ((), write_byte d 0x00 (write_byte d WP_REG_WRITE g))) g2;
          (v, g4) = timing (start_tx d) (end_tx d)
                      (\<lambda>g. ((), write_byte d 0x00 (write_byte d CHR_REG_WRITE g))) g3
      in (d, g4))"

text \<open>\<^verbatim>\<open>__del__\<close>.\<close>

definition del :: "ds1302 \<Rightarrow> gpio \<Rightarrow> gpio" where
  "del d g = gpio_cleanup [io_pin d, clk_pin d, rst_pin d] g"

text \<open>The loops \<^verbatim>\<open>for _ in range(n): acc.append(self._read_byte())\<close>.\<close>

fun read_bytes :: "ds1302 \<Rightarrow> nat list \<Rightarrow> int list \<Rightarrow> gpio \<Rightarrow> int list \<times> gpio" where
  "read_bytes d [] acc g = (acc, g)"
| "read_bytes d (i # rest) acc g =
     (case read_byte d g of (b, g') \<Rightarrow> read_bytes d rest (acc @ [b]) g')"

definition read_ram :: "ds1302 \<Rightarrow> gpio \<Rightarrow> int list \<times> gpio" where
  "read_ram d g =
     timing (start_tx d) (end_tx d)
       (\<lambda>g. read_bytes d [0..<RAM_SIZE] [] (write_byte d RAM_BURST_READ g)) g"

text \<open>\<^verbatim>\<open>seq[i:j]\<close> for indices within \<^verbatim>\<open>0 .. \<close> and \<^verbatim>\<open>ord\<close> of a sequence of bytes.\<close>

definition slice :: "'a list \<Rightarrow> nat \<Rightarrow> nat \<Rightarrow> 'a list" where
  "slice xs i j = take (j - i) (drop i xs)"

definition ord :: "int list \<Rightarrow> error + int" where
  "ord s = (case s of [c] \<Rightarrow> Inr c | _ \<Rightarrow> Inl TypeError)"

fun write_ram_loop :: "ds1302 \<Rightarrow> int list \<Rightarrow> nat list \<Rightarrow> gpio \<Rightarrow> (error + unit) \<times> gpio" where
  "write_ram_loop d ram [] g = (Inr (), g)"
| "write_ram_loop d ram (i # rest) g =
     (case ord (slice ram i (i + 1)) of
        Inl e \<Rightarrow> (Inl e, g)
      | Inr b \<Rightarrow> write_ram_loop d ram rest (write_byte d b g))"

definition write_ram :: "ds1302 \<Rightarrow> int list \<Rightarrow> gpio \<Rightarrow> (error + unit) \<times> gpio" where
  "write_ram d ram g =
     timing (start_tx d) (end_tx d)
       (\<lambda>g. write_ram_loop d ram [0..<min (length ram) RAM_SIZE]
               (write_byte d RAW_BURST_WRITE g)) g"

text \<open>Line 158 of the driver: the registers read, decoded to a \<^verbatim>\<open>datetime\<close>.\<close>

definition decode_regs :: "int list \<Rightarrow> error + datetime" where
  "decode_regs regs = strptime (join '' '' (map format_x regs)) DT_STR_FMT"

definition read_datetime :: "ds1302 \<Rightarrow> gpio \<Rightarrow> (error + datetime) \<times> gpio" where
  "read_datetime d g =
     (case timing (start_tx d) (end_tx d)
             (\<lambda>g. read_bytes d [0..<REG_SIZE] [] (write_byte d REG_BURST_READ g)) g of
        (regs, g') \<Rightarrow> (decode_regs regs, g'))"

text \<open>Line 168 of the driver: the nine bytes \<^verbatim>\<open>write_datetime\<close> sends after the command.\<close>

fun int_all :: "string list \<Rightarrow> error + int list" where
  "int_all [] = Inr []"
| "int_all (i # rest) =
     (case py_int (''0x'' @ i) 16 of
        Inl e \<Rightarrow> Inl e
      | Inr n \<Rightarrow> (case int_all rest of Inl e \<Rightarrow> Inl e | Inr ns \<Rightarrow> Inr (n # ns)))"

definition encode_regs :: "datetime \<Rightarrow> error + int list" where
  "encode_regs dt =
     (case int_all (split (strftime dt DT_STR_FMT)) of
        Inl e \<Rightarrow> Inl e
      | Inr ns \<Rightarrow> Inr (ns @ replicate 2 0))"

definition write_datetime :: "ds1302 \<Rightarrow> datetime \<Rightarrow> gpio \<Rightarrow> (error + unit) \<times> gpio" where
  "write_datetime d dt g =
     (case encode_regs dt of
        Inl e \<Rightarrow> (Inl e, g)
      | Inr regs \<Rightarrow>
          timing (start_tx d) (end_tx d)
            (\<lambda>g. (Inr (), fold (write_byte d) regs (write_byte d REG_BURST_WRITE g))) g)"

section \<open>Observing the call log\<close>

text \<open>The calls an operation adds to the log.\<close>

definition emitted :: "(gpio \<Rightarrow> 'a \<times> gpio) \<Rightarrow> gpio \<Rightarrow> call list" where
  "emitted f g = drop (length (calls g)) (calls (snd (f g)))"

text \<open>The levels written to one pin, in order.\<close>

fun driven :: "int \<Rightarrow> call list \<Rightarrow> int list" where
  "driven pin [] = []"
| "driven pin (Output p v # cs) = (if p = pin then v # driven pin cs else driven pin cs)"
| "driven pin (c # cs) = driven pin cs"

text \<open>
  A loopback harness: the coming \<^verbatim>\<open>input\<close> calls sample the levels in \<open>bits\<close>, one after
  the other, and then whatever \<open>f\<close> supplies.
\<close>

definition loopback :: "int list \<Rightarrow> (nat \<Rightarrow> bool) \<Rightarrow> nat \<Rightarrow> bool" where
  "loopback bits f n = (if n < length bits then bits ! n \<noteq> LOW else f (n - length bits))"

text \<open>
  The state of the lines as the calls leave it: the level last driven on each pin and the
  direction each pin is configured for.
\<close>

record lines =
  level :: "int \<Rightarrow> int"
  dir :: "int \<Rightarrow> direction option"

fun step :: "lines \<Rightarrow> call \<Rightarrow> lines" where
  "step s (Output p v) = s\<lparr>level := (level s)(p := v)\<rparr>"
| "step s (Setup ps dr initial) =
     s\<lparr>level := (\<lambda>p. if p \<in> set ps then (case initial of Some v \<Rightarrow> v | None \<Rightarrow> level s p)
                       else level s p),
       dir := (\<lambda>p. if p \<in> set ps then Some dr else dir s p)\<rparr>"
| "step s (Cleanup ps) = s\<lparr>dir := (\<lambda>p. if p \<in> set ps then None else dir s p)\<rparr>"
| "step s (Input p) = s"
| "step s (Setmode m) = s"

definition run :: "lines \<Rightarrow> call list \<Rightarrow> lines" where
  "run s cs = foldl step s cs"

text \<open>A clock edge is a call that changes the level of the clock line.\<close>

definition clock_edge :: "ds1302 \<Rightarrow> lines \<Rightarrow> call \<Rightarrow> bool" where
  "clock_edge d s c = (level (step s c) (clk_pin d) \<noteq> level s (clk_pin d))"

definition rst_high :: "ds1302 \<Rightarrow> lines \<Rightarrow> bool" where
  "rst_high d s = (level s (rst_pin d) = HIGH)"

text \<open>
  A call drives reset low when it writes a level other than high to the reset pin, or
  when the reset line was high before it and is not after it.
\<close>

definition rst_lowered :: "ds1302 \<Rightarrow> lines \<Rightarrow> call \<Rightarrow> bool" where
  "rst_lowered d s c =
     ((case c of Output p v \<Rightarrow> p = rst_pin d \<and> v \<noteq> HIGH | _ \<Rightarrow> False) \<or>
      (rst_high d s \<and> \<not> rst_high d (step s c)))"

fun edge_free :: "ds1302 \<Rightarrow> lines \<Rightarrow> call list \<Rightarrow> bool" where
  "edge_free d s [] = True"
| "edge_free d s (c # cs) = (\<not> clock_edge d s c \<and> edge_free d (step s c) cs)"

text \<open>
  Transaction framing, checked along a sequence of calls from the line state \<open>s\<close>: reset
  is high before and after every clock edge, and a call that drives reset low finds the
  data pin configured as input and is followed by no clock edge.
\<close>

fun framed :: "ds1302 \<Rightarrow> lines \<Rightarrow> call list \<Rightarrow> bool" where
  "framed d s [] = True"
| "framed d s (c # cs) =
     ((clock_edge d s c \<longrightarrow> rst_high d s \<and> rst_high d (step s c)) \<and>
      (rst_lowered d s c \<longrightarrow> dir s (io_pin d) = Some IN \<and> edge_free d (step s c) cs) \<and>
      framed d (step s c) cs)"

text \<open>The idle state every transaction leaves: clock low, reset low, data pin an input.\<close>

definition idle :: "ds1302 \<Rightarrow> lines \<Rightarrow> bool" where
  "idle d s =
     (level s (clk_pin d) = LOW \<and> level s (rst_pin d) = LOW \<and> dir s (io_pin d) = Some IN)"

text \<open>
  The calls of the framing and of one byte, listed; the lemmas below show that the
  driver's functions add exactly these to the log.
\<close>

definition start_calls :: "ds1302 \<Rightarrow> call list" where
  "start_calls d = [Output (clk_pin d) LOW, Output (rst_pin d) HIGH]"

definition end_calls :: "ds1302 \<Rightarrow> call list" where
  "end_calls d = [Setup [io_pin d] IN None, Output (clk_pin d) LOW, Output (rst_pin d) LOW]"

definition write_calls :: "ds1302 \<Rightarrow> int \<Rightarrow> call list" where
  "write_calls d b =
     Setup [io_pin d] OUT None #
     concat (map (\<lambda>i. [Output (clk_pin d) LOW, Output (io_pin d) (drop_bit i b AND 1),
                        Output (clk_pin d) HIGH]) [0..<8])"

definition read_calls :: "ds1302 \<Rightarrow> call list" where
  "read_calls d =
     Setup [io_pin d] IN None #
     concat (map (\<lambda>i. [Output (clk_pin d) HIGH, Output (clk_pin d) LOW, Input (io_pin d)])
               [0..<8])"

text \<open>The byte that eight samples make, the first sample in bit 0.\<close>

definition assemble :: "(nat \<Rightarrow> bool) \<Rightarrow> int" where
  "assemble f = fold (\<lambda>i byte. byte OR (2 ^ i * of_bool (f i))) [0..<8] 0"

text \<open>Binary-coded decimal: the tens in the high nibble, the units in the low one.\<close>

definition bcd :: "int \<Rightarrow> int" where
  "bcd n = 16 * (n div 10) + n mod 10"

text \<open>An alternative of a group matches the whole of a token.\<close>

definition full_match :: "string list list \<Rightarrow> string \<Rightarrow> bool" where
  "full_match alts t = list_ex (\<lambda>alt. match_alt alt t = Some (t, [])) alts"

text \<open>A register byte whose two nibbles are decimal digits, and the number they spell.\<close>

definition is_bcd :: "int \<Rightarrow> bool" where
  "is_bcd r = (r div 16 \<le> 9 \<and> r mod 16 \<le> 9)"

definition unbcd :: "int \<Rightarrow> int" where
  "unbcd r = 10 * (r div 16) + r mod 16"

text \<open>
  The register frame that the seven reads of \<^verbatim>\<open>read_datetime\<close> will sample from the
  feed, and the ranges of the calendar fields: second and minute 0 to 59, hour 0 to 23,
  day of month 1 to 31, month 1 to 12, weekday 1 to 7, year 0 to 99.
\<close>

definition frame :: "gpio \<Rightarrow> int list" where
  "frame g = map (\<lambda>k. assemble (\<lambda>n. feed g (n + 8 * k))) [0..<7]"

definition fields_in_range :: "int list \<Rightarrow> bool" where
  "fields_in_range regs =
     (case regs of
        [s, mi, h, d, mo, wd, y] \<Rightarrow>
          unbcd s \<le> 59 \<and> unbcd mi \<le> 59 \<and> unbcd h \<le> 23 \<and> 1 \<le> unbcd d \<and> unbcd d \<le> 31
          \<and> 1 \<le> unbcd mo \<and> unbcd mo \<le> 12 \<and> 1 \<le> unbcd wd \<and> unbcd wd \<le> 7 \<and> unbcd y \<le> 99
      | _ \<Rightarrow> False)"

text \<open>
  The frames whose text the expression of the format matches: every byte spells a
  number, the second is at most 61, and the year byte has a tens digit.
\<close>

definition frame_ok :: "int list \<Rightarrow> bool" where
  "frame_ok regs =
     (case regs of
        [s, mi, h, d, mo, wd, y] \<Rightarrow>
          (is_bcd s \<and> unbcd s \<le> 61) \<and> (is_bcd mi \<and> unbcd mi \<le> 59)
          \<and> (is_bcd h \<and> unbcd h \<le> 23) \<and> (is_bcd d \<and> 1 \<le> unbcd d \<and> unbcd d \<le> 31)
          \<and> (is_bcd mo \<and> 1 \<le> unbcd mo \<and> unbcd mo \<le> 12)
          \<and> (is_bcd wd \<and> 1 \<le> unbcd wd \<and> unbcd wd \<le> 7) \<and> (is_bcd y \<and> 16 \<le> y)
      | _ \<Rightarrow> False)"

section \<open>Byte transport\<close>

lemma range8: "[0..<8] = [0, 1, 2, 3, 4, 5, 6, 7]"
  by code_simp
lemma bit_pow_bool: "bit (2 ^ i * of_bool b :: int) n \<longleftrightarrow> b \<and> n = i"
  by (cases b) (auto simp: bit_exp_iff)
lemma bit_assemble:
  "bit (fold (\<lambda>i byte. byte OR (2 ^ i * of_bool (f i))) [0..<8] (0::int)) n \<longleftrightarrow> n < 8 \<and> f n"
proof -
  have "n < 8 \<longleftrightarrow> n \<in> set [0..<8]" by simp
  then show ?thesis
    unfolding range8 by (simp only: fold_simps bit_or_iff bit_pow_bool id_apply comp_apply) auto
qed

lemma write_bits_step:
  "write_bits d (i # rest) b g =
     write_bits d rest (drop_bit 1 b)
       (g\<lparr>calls := calls g @ [Output (clk_pin d) LOW, Output (io_pin d) (b AND 1),
                                 Output (clk_pin d) HIGH]\<rparr>)"
  by (simp add: gpio_output_def sleep_def)

lemma read_bits_step:
  "read_bits d (i # rest) acc g =
     read_bits d rest (acc OR (2 ^ i * of_bool (feed g 0)))
       (g\<lparr>calls := calls g @ [Output (clk_pin d) HIGH, Output (clk_pin d) LOW,
                                 Input (io_pin d)],
          feed := (\<lambda>n. feed g (Suc n))\<rparr>)"
  by (simp add: gpio_output_def gpio_input_def sleep_def HIGH_def LOW_def)

lemma write_byte_log:
  "write_byte d b g = g\<lparr>calls := calls g @
     Setup [io_pin d] OUT None #
     concat (map (\<lambda>i. [Output (clk_pin d) LOW, Output (io_pin d) (drop_bit i b AND 1),
                        Output (clk_pin d) HIGH]) [0..<8])\<rparr>"
  by (simp add: write_byte_def range8 gpio_setup_def write_bits_step eval_nat_numeral del: write_bits.simps(2))

lemma read_byte_log:
  "read_byte d g =
     (fold (\<lambda>i byte. byte OR (2 ^ i * of_bool (feed g i))) [0..<8] 0,
      g\<lparr>calls := calls g @
           Setup [io_pin d] IN None #
           concat (map (\<lambda>i. [Output (clk_pin d) HIGH, Output (clk_pin d) LOW, Input (io_pin d)]) [0..<8]),
        feed := (\<lambda>n. feed g (n + 8))\<rparr>)"
  by (simp add: read_byte_def range8 gpio_setup_def read_bits_step eval_nat_numeral del: read_bits.simps(2))

lemma and_one_bit: "(drop_bit i (v::int) AND 1) = of_bool (bit v i)"
  by (simp add: and_one_eq bit_iff_odd_drop_bit mod_2_eq_odd)

lemma byte_bits: "0 \<le> (v::int) \<Longrightarrow> v \<le> 0xFF \<Longrightarrow> bit v n \<Longrightarrow> n < 8"
proof -
  assume a: "0 \<le> v" "v \<le> 0xFF" "bit v n"
  have "take_bit 8 v = v" using a by (simp add: take_bit_int_eq_self)
  then have "bit (take_bit 8 v) n" using a by simp
  then show ?thesis by (simp add: bit_take_bit_iff)
qed

lemma emitted_write_byte:
  "emitted (\<lambda>g. (u, write_byte d v g)) g =
     Setup [io_pin d] OUT None #
     concat (map (\<lambda>i. [Output (clk_pin d) LOW, Output (io_pin d) (drop_bit i v AND 1),
                        Output (clk_pin d) HIGH]) [0..<8])"
  by (simp add: emitted_def write_byte_log)

lemma driven_write:
  "clk_pin d \<noteq> io_pin d \<Longrightarrow>
   driven (io_pin d) (Setup [io_pin d] OUT None #
     concat (map (\<lambda>i. [Output (clk_pin d) LOW, Output (io_pin d) (drop_bit i v AND 1),
                        Output (clk_pin d) HIGH]) [0..<8]))
   = map (\<lambda>i. of_bool (bit v i)) [0..<8]"
  apply (simp only: and_one_bit)
  apply (simp only: range8)
  apply simp
  done

lemma read_byte_bit: "bit (fst (read_byte d h)) n \<longleftrightarrow> n < 8 \<and> feed h n"
  by (simp only: read_byte_log fst_conv bit_assemble)

text \<open>
  C2. For every byte value 0 to 0xFF, \<^verbatim>\<open>_write_byte\<close> puts the bits of the byte on the data
  pin least significant bit first, \<^verbatim>\<open>_read_byte\<close> makes the n-th level it samples bit n
  of its result, and when the levels written are fed back as the levels read, reading
  returns the byte written. The clock and data pins are two pins.
\<close>

theorem bit_order_loopback:
  assumes "0 \<le> v" and "v \<le> 0xFF" and "clk_pin d \<noteq> io_pin d"
  shows "driven (io_pin d) (emitted (\<lambda>g. ((), write_byte d v g)) g) = map (\<lambda>i. of_bool (bit v i)) [0..<8]
       \<and> (\<forall>n. bit (fst (read_byte d h)) n \<longleftrightarrow> n < 8 \<and> feed h n)
       \<and> fst (read_byte d (h\<lparr>feed := loopback (driven (io_pin d) (emitted (\<lambda>g. ((), write_byte d v g)) g)) f\<rparr>)) = v"
proof -
  let ?bits = "driven (io_pin d) (emitted (\<lambda>g. ((), write_byte d v g)) g)"
  have a: "?bits = map (\<lambda>i. of_bool (bit v i)) [0..<8]"
    by (simp only: emitted_write_byte) (rule driven_write [OF assms(3)])
  have "bit (fst (read_byte d (h\<lparr>feed := loopback ?bits f\<rparr>))) n = bit v n" for n
  proof (cases "n < 8")
    case True
    have "loopback ?bits f n = bit v n"
      unfolding a using True by (simp add: loopback_def LOW_def)
    then show ?thesis
      using True by (simp only: read_byte_bit) simp
  next
    case False
    then have "\<not> bit v n"
      using byte_bits [OF assms(1,2)] by blast
    then show ?thesis
      using False by (simp only: read_byte_bit) simp
  qed
  then have c: "fst (read_byte d (h\<lparr>feed := loopback ?bits f\<rparr>)) = v"
    by (rule bit_eqI)
  show ?thesis
    using a c read_byte_bit by blast
qed

text \<open>The instance 0xA5 on the default pins 4, 17 and 27.\<close>

theorem bit_order_loopback_witness:
  "(0::int) \<le> 0xA5 \<and> (0xA5::int) \<le> 0xFF \<and> (4::int) \<noteq> 17
   \<and> driven 17 (emitted (\<lambda>g. ((), write_byte \<lparr>clk_pin = 4, io_pin = 17, rst_pin = 27\<rparr> 0xA5 g)) \<lparr>calls = [], feed = (\<lambda>n. False)\<rparr>)
     = [1, 0, 1, 0, 0, 1, 0, 1]
   \<and> fst (read_byte \<lparr>clk_pin = 4, io_pin = 17, rst_pin = 27\<rparr>
        \<lparr>calls = [], feed = loopback (driven 17 (emitted (\<lambda>g. ((), write_byte \<lparr>clk_pin = 4, io_pin = 17, rst_pin = 27\<rparr> 0xA5 g)) \<lparr>calls = [], feed = (\<lambda>n. False)\<rparr>)) (\<lambda>n. False)\<rparr>) = 0xA5"
proof -
  have h: "(0::int) \<le> 0xA5" "(0xA5::int) \<le> 0xFF"
    "clk_pin \<lparr>clk_pin = 4, io_pin = 17, rst_pin = 27\<rparr> \<noteq> io_pin \<lparr>clk_pin = 4, io_pin = 17, rst_pin = 27\<rparr>"
    by simp_all
  have m: "map (\<lambda>i. of_bool (bit (0xA5::int) i)) [0..<8] = [1, 0, 1, 0, 0, 1, 0, 1 :: int]"
    by (simp add: range8 bit_numeral_simps eval_nat_numeral)
  note t = bit_order_loopback [of "0xA5" "\<lparr>clk_pin = 4, io_pin = 17, rst_pin = 27\<rparr>"
      "\<lparr>calls = [], feed = (\<lambda>n. False)\<rparr>" "\<lparr>calls = [], feed = (\<lambda>n. False)\<rparr>" "\<lambda>n. False",
      OF h, unfolded ds1302.simps gpio.simps m]
  have "(0::int) \<le> 0xA5 \<and> (0xA5::int) \<le> 0xFF \<and> (4::int) \<noteq> 17"
    by simp
  then show ?thesis
    using t by blast
qed

section \<open>The calls of the operations\<close>

lemma write_byte_calls: "write_byte d b g = g\<lparr>calls := calls g @ write_calls d b\<rparr>"
  by (simp only: write_byte_log write_calls_def)

lemma read_byte_calls:
  "read_byte d g =
     (assemble (feed g), g\<lparr>calls := calls g @ read_calls d, feed := (\<lambda>n. feed g (n + 8))\<rparr>)"
  by (simp only: read_byte_log read_calls_def assemble_def)

lemma start_tx_calls: "start_tx d g = g\<lparr>calls := calls g @ start_calls d\<rparr>"
  by (simp add: start_tx_def start_calls_def gpio_output_def)

lemma end_tx_calls: "end_tx d g = g\<lparr>calls := calls g @ end_calls d\<rparr>"
  by (simp add: end_tx_def end_calls_def gpio_output_def gpio_setup_def)

lemma fold_write_byte_calls:
  "fold (write_byte d) bs g = g\<lparr>calls := calls g @ concat (map (write_calls d) bs)\<rparr>"
  by (induction bs arbitrary: g) (simp_all add: write_byte_calls)

lemma read_bytes_calls:
  "read_bytes d ks acc g =
     (acc @ map (\<lambda>k. assemble (\<lambda>n. feed g (n + 8 * k))) [0..<length ks],
      g\<lparr>calls := calls g @ concat (replicate (length ks) (read_calls d)),
        feed := (\<lambda>n. feed g (n + 8 * length ks))\<rparr>)"
proof (induction ks arbitrary: acc g)
  case Nil
  then show ?case by simp
next
  case (Cons k ks)
  have "map (\<lambda>k. assemble (\<lambda>n. feed g (n + 8 * k))) [0..<Suc (length ks)] =
          assemble (feed g) # map (\<lambda>k. assemble (\<lambda>n. feed g (n + 8 + 8 * k))) [0..<length ks]"
    by (simp only: upt_conv_Cons zero_less_Suc list.map map_Suc_upt [symmetric] map_map comp_def)
       (simp add: add.assoc)
  then show ?case
    by (simp add: read_byte_calls Cons.IH add.assoc add.commute add.left_commute)
qed

lemma write_ram_loop_ok:
  "\<forall>i\<in>set ks. i < length ram \<Longrightarrow>
   write_ram_loop d ram ks g = (Inr (), fold (write_byte d) (map (\<lambda>i. ram ! i) ks) g)"
proof (induction ks arbitrary: g)
  case Nil
  then show ?case by simp
next
  case (Cons k ks)
  then have "k < length ram" by simp
  then have "slice ram k (k + 1) = [ram ! k]"
    by (simp add: slice_def Cons_nth_drop_Suc [symmetric])
  then show ?case using Cons by (simp add: ord_def)
qed

lemma take_as_map: "map (\<lambda>i. xs ! i) [0..<min (length xs) n] = take n xs"
  by (simp add: list_eq_iff_nth_eq)

lemma read_ram_calls:
  "read_ram d g =
     (map (\<lambda>k. assemble (\<lambda>n. feed g (n + 8 * k))) [0..<31],
      g\<lparr>calls := calls g @ start_calls d @ write_calls d 0xFF @
                    concat (replicate 31 (read_calls d)) @ end_calls d,
        feed := (\<lambda>n. feed g (n + 248))\<rparr>)"
  by (simp add: read_ram_def timing_def RAM_SIZE_def RAM_BURST_READ_def start_tx_calls
      write_byte_calls read_bytes_calls end_tx_calls)

lemma read_datetime_calls:
  "read_datetime d g =
     (decode_regs (map (\<lambda>k. assemble (\<lambda>n. feed g (n + 8 * k))) [0..<7]),
      g\<lparr>calls := calls g @ start_calls d @ write_calls d 0xBF @
                    concat (replicate 7 (read_calls d)) @ end_calls d,
        feed := (\<lambda>n. feed g (n + 56))\<rparr>)"
  by (simp add: read_datetime_def timing_def REG_SIZE_def REG_BURST_READ_def start_tx_calls
      write_byte_calls read_bytes_calls end_tx_calls)

lemma write_ram_eq:
  "write_ram d ram g =
     (Inr (), end_tx d (fold (write_byte d) (take 31 ram) (write_byte d 0xFE (start_tx d g))))"
proof -
  have "\<forall>i\<in>set [0..<min (length ram) 31]. i < length ram"
    by simp
  then show ?thesis
    by (simp add: write_ram_def timing_def RAM_SIZE_def RAW_BURST_WRITE_def write_ram_loop_ok
        take_as_map)
qed

lemma write_ram_calls:
  "write_ram d ram g =
     (Inr (), g\<lparr>calls := calls g @ start_calls d @ write_calls d 0xFE @
                    concat (map (write_calls d) (take 31 ram)) @ end_calls d\<rparr>)"
  by (simp add: write_ram_eq start_tx_calls write_byte_calls fold_write_byte_calls end_tx_calls)

lemma write_datetime_calls:
  "encode_regs dt = Inr regs \<Longrightarrow>
   write_datetime d dt g =
     (Inr (), g\<lparr>calls := calls g @ start_calls d @ write_calls d 0xBE @
                    concat (map (write_calls d) regs) @ end_calls d\<rparr>)"
  by (simp add: write_datetime_def timing_def REG_BURST_WRITE_def start_tx_calls
      write_byte_calls fold_write_byte_calls end_tx_calls)

lemma init_calls:
  "init clk io rst mode g =
     (\<lparr>clk_pin = clk, io_pin = io, rst_pin = rst\<rparr>,
      g\<lparr>calls := calls g @ [Setmode mode, Setup [clk, rst] OUT (Some LOW)] @
           start_calls \<lparr>clk_pin = clk, io_pin = io, rst_pin = rst\<rparr> @
           write_calls \<lparr>clk_pin = clk, io_pin = io, rst_pin = rst\<rparr> 0x8E @
           write_calls \<lparr>clk_pin = clk, io_pin = io, rst_pin = rst\<rparr> 0x00 @
           end_calls \<lparr>clk_pin = clk, io_pin = io, rst_pin = rst\<rparr> @
           start_calls \<lparr>clk_pin = clk, io_pin = io, rst_pin = rst\<rparr> @
           write_calls \<lparr>clk_pin = clk, io_pin = io, rst_pin = rst\<rparr> 0x90 @
           write_calls \<lparr>clk_pin = clk, io_pin = io, rst_pin = rst\<rparr> 0x00 @
           end_calls \<lparr>clk_pin = clk, io_pin = io, rst_pin = rst\<rparr>\<rparr>)"
  by (simp add: init_def timing_def Let_def WP_REG_WRITE_def CHR_REG_WRITE_def gpio_setmode_def
      gpio_setup_def start_tx_calls write_byte_calls end_tx_calls)

text \<open>
  C10. \<^verbatim>\<open>write_ram\<close> of an empty block is still a whole transaction: clock low and
  reset high, the data pin set as output, the eight bits of 0xFE clocked out least
  significant bit first, no data byte, then the data pin set as input, clock low and
  reset low.
\<close>

theorem write_ram_empty:
  "write_ram d [] g =
     (Inr (),
      g\<lparr>calls := calls g @
         [Output (clk_pin d) LOW, Output (rst_pin d) HIGH,
          Setup [io_pin d] OUT None,
          Output (clk_pin d) LOW, Output (io_pin d) 0, Output (clk_pin d) HIGH,
          Output (clk_pin d) LOW, Output (io_pin d) 1, Output (clk_pin d) HIGH,
          Output (clk_pin d) LOW, Output (io_pin d) 1, Output (clk_pin d) HIGH,
          Output (clk_pin d) LOW, Output (io_pin d) 1, Output (clk_pin d) HIGH,
          Output (clk_pin d) LOW, Output (io_pin d) 1, Output (clk_pin d) HIGH,
          Output (clk_pin d) LOW, Output (io_pin d) 1, Output (clk_pin d) HIGH,
          Output (clk_pin d) LOW, Output (io_pin d) 1, Output (clk_pin d) HIGH,
          Output (clk_pin d) LOW, Output (io_pin d) 1, Output (clk_pin d) HIGH,
          Setup [io_pin d] IN None, Output (clk_pin d) LOW, Output (rst_pin d) LOW]\<rparr>)"
  by (simp add: write_ram_calls start_calls_def end_calls_def write_calls_def range8
      and_one_bit bit_numeral_simps eval_nat_numeral del: drop_bit_of_0)

section \<open>Teardown\<close>

lemma length_write_calls: "length (write_calls d b) = 25"
  by (simp add: write_calls_def range8)

lemma length_read_calls: "length (read_calls d) = 25"
  by (simp add: read_calls_def range8)

lemma emitted_read_datetime:
  "emitted (read_datetime d) g =
     start_calls d @ write_calls d 0xBF @ concat (replicate 7 (read_calls d)) @ end_calls d"
  by (simp add: read_datetime_calls emitted_def)

text \<open>
  C8 as stated fails: on the default pins, after the constructor and \<^verbatim>\<open>__del__\<close>, with a
  chip that answers 2024-01-15 10:30:45, \<^verbatim>\<open>read_datetime\<close> returns that date and has
  made pin-level calls.
\<close>

theorem teardown_counterexample:
  "fst (read_datetime \<lparr>clk_pin = 4, io_pin = 17, rst_pin = 27\<rparr>
         (del \<lparr>clk_pin = 4, io_pin = 17, rst_pin = 27\<rparr>
            (snd (init 4 17 27 BCM
              \<lparr>calls = [],
               feed = (\<lambda>n. n < 56 \<and> bit ([0x45, 0x30, 0x10, 0x15, 0x01, 0x01, 0x24] ! (n div 8) :: int) (n mod 8))\<rparr>))))
     = Inr \<lparr>year = 2024, month = 1, day = 15, hour = 10, minute = 30, second = 45, microsecond = 0\<rparr>
   \<and> emitted (read_datetime \<lparr>clk_pin = 4, io_pin = 17, rst_pin = 27\<rparr>)
         (del \<lparr>clk_pin = 4, io_pin = 17, rst_pin = 27\<rparr>
            (snd (init 4 17 27 BCM
              \<lparr>calls = [],
               feed = (\<lambda>n. n < 56 \<and> bit ([0x45, 0x30, 0x10, 0x15, 0x01, 0x01, 0x24] ! (n div 8) :: int) (n mod 8))\<rparr>)))
     \<noteq> []"
proof -
  have r: "map (\<lambda>k. assemble (\<lambda>n. (n + 8 * k) < 56 \<and> bit ([0x45, 0x30, 0x10, 0x15, 0x01, 0x01, 0x24] ! ((n + 8 * k) div 8) :: int) ((n + 8 * k) mod 8))) [0..<7]
      = [0x45, 0x30, 0x10, 0x15, 0x01, 0x01, 0x24]"
    by code_simp
  have v: "decode_regs [0x45, 0x30, 0x10, 0x15, 0x01, 0x01, 0x24]
      = Inr \<lparr>year = 2024, month = 1, day = 15, hour = 10, minute = 30, second = 45, microsecond = 0\<rparr>"
    by code_simp
  have g: "feed (del \<lparr>clk_pin = 4, io_pin = 17, rst_pin = 27\<rparr>
            (snd (init 4 17 27 BCM
              \<lparr>calls = [],
               feed = (\<lambda>n. n < 56 \<and> bit ([0x45, 0x30, 0x10, 0x15, 0x01, 0x01, 0x24] ! (n div 8) :: int) (n mod 8))\<rparr>)))
      = (\<lambda>n. n < 56 \<and> bit ([0x45, 0x30, 0x10, 0x15, 0x01, 0x01, 0x24] ! (n div 8) :: int) (n mod 8))"
    by (simp add: init_calls del_def gpio_cleanup_def)
  have e: "fst (read_datetime d X) = decode_regs (map (\<lambda>k. assemble (\<lambda>n. feed X (n + 8 * k))) [0..<7])" for d X
    by (simp only: read_datetime_calls fst_conv)
  have 1: "fst (read_datetime \<lparr>clk_pin = 4, io_pin = 17, rst_pin = 27\<rparr>
         (del \<lparr>clk_pin = 4, io_pin = 17, rst_pin = 27\<rparr>
            (snd (init 4 17 27 BCM
              \<lparr>calls = [],
               feed = (\<lambda>n. n < 56 \<and> bit ([0x45, 0x30, 0x10, 0x15, 0x01, 0x01, 0x24] ! (n div 8) :: int) (n mod 8))\<rparr>))))
     = Inr \<lparr>year = 2024, month = 1, day = 15, hour = 10, minute = 30, second = 45, microsecond = 0\<rparr>"
    by (simp only: e g r v)
  have 2: "emitted (read_datetime d) X \<noteq> []" for d X
    by (simp add: emitted_read_datetime start_calls_def)
  show ?thesis
    using 1 2 by blast
qed

section \<open>Transaction framing\<close>

lemma run_append: "run s (a @ b) = run (run s a) b"
  by (simp add: run_def)

lemma run_Cons: "run s (c # cs) = run (step s c) cs"
  by (simp add: run_def)

lemma run_Nil: "run s [] = s"
  by (simp add: run_def)

text \<open>Calls that leave the reset line alone pass the framing check while reset is high.\<close>

lemma framed_skip:
  assumes "rst_high d s"
    and "\<forall>c\<in>set cs. (\<forall>v. c \<noteq> Output (rst_pin d) v) \<and> (\<forall>t. level (step t c) (rst_pin d) = level t (rst_pin d))"
  shows "framed d s (cs @ rest) = framed d (run s cs) rest \<and> rst_high d (run s cs)"
  using assms
proof (induction cs arbitrary: s)
  case Nil
  then show ?case by (simp add: run_Nil)
next
  case (Cons c cs)
  have keep: "level (step s c) (rst_pin d) = level s (rst_pin d)"
    using Cons.prems(2) by simp
  then have high: "rst_high d (step s c)"
    using Cons.prems(1) by (simp add: rst_high_def)
  have "\<not> rst_lowered d s c"
    using Cons.prems high by (auto simp: rst_lowered_def split: call.splits)
  then have "framed d s ((c # cs) @ rest) = framed d (step s c) (cs @ rest)"
    using Cons.prems(1) high by simp
  moreover have "framed d (step s c) (cs @ rest) = framed d (run (step s c) cs) rest
      \<and> rst_high d (run (step s c) cs)"
    using Cons.IH [OF high] Cons.prems(2) by simp
  ultimately show ?case
    by (simp add: run_Cons)
qed

lemma write_calls_quiet:
  assumes "rst_pin d \<noteq> clk_pin d" and "rst_pin d \<noteq> io_pin d"
  shows "\<forall>c\<in>set (write_calls d b). (\<forall>v. c \<noteq> Output (rst_pin d) v) \<and> (\<forall>t. level (step t c) (rst_pin d) = level t (rst_pin d))"
  using assms by (simp add: write_calls_def range8)

lemma read_calls_quiet:
  assumes "rst_pin d \<noteq> clk_pin d" and "rst_pin d \<noteq> io_pin d"
  shows "\<forall>c\<in>set (read_calls d). (\<forall>v. c \<noteq> Output (rst_pin d) v) \<and> (\<forall>t. level (step t c) (rst_pin d) = level t (rst_pin d))"
  using assms by (simp add: read_calls_def range8)

lemma framed_tx:
  assumes pins: "distinct [clk_pin d, io_pin d, rst_pin d]"
    and low: "level s (clk_pin d) = LOW"
    and quiet: "\<forall>c\<in>set mid. (\<forall>v. c \<noteq> Output (rst_pin d) v) \<and> (\<forall>t. level (step t c) (rst_pin d) = level t (rst_pin d))"
  shows "framed d s (start_calls d @ mid @ end_calls d)
       \<and> idle d (run s (start_calls d @ mid @ end_calls d))"
proof -
  let ?s2 = "run s (start_calls d)"
  have high2: "rst_high d ?s2"
    by (simp add: start_calls_def run_def rst_high_def)
  have a: "framed d s (start_calls d @ rest) = framed d ?s2 rest" for rest
    using pins low
    by (simp add: start_calls_def run_def clock_edge_def rst_lowered_def rst_high_def HIGH_def LOW_def)
  have b: "framed d ?s2 (mid @ rest) = framed d (run ?s2 mid) rest" "rst_high d (run ?s2 mid)" for rest
    using framed_skip [OF high2 quiet] by simp_all
  have c: "rst_high d t \<Longrightarrow> framed d t (end_calls d) \<and> idle d (run t (end_calls d))" for t
    using pins
    by (simp add: end_calls_def run_def clock_edge_def rst_lowered_def rst_high_def idle_def HIGH_def LOW_def)
  show ?thesis
    using c [OF b(2)] by (simp add: a b(1) run_append)
qed

lemma emitted_read_ram:
  "emitted (read_ram d) g =
     start_calls d @ (write_calls d 0xFF @ concat (replicate 31 (read_calls d))) @ end_calls d"
  by (simp add: read_ram_calls emitted_def)

lemma emitted_write_ram:
  "emitted (write_ram d ram) g =
     start_calls d @ (write_calls d 0xFE @ concat (map (write_calls d) (take 31 ram))) @ end_calls d"
  by (simp add: write_ram_calls emitted_def)

lemma emitted_write_datetime:
  "emitted (write_datetime d dt) g =
     (case encode_regs dt of
        Inl e \<Rightarrow> []
      | Inr regs \<Rightarrow>
          start_calls d @ (write_calls d 0xBE @ concat (map (write_calls d) regs)) @ end_calls d)"
proof (cases "encode_regs dt")
  case (Inl e)
  then show ?thesis by (simp add: write_datetime_def emitted_def)
next
  case (Inr regs)
  then show ?thesis by (simp add: write_datetime_calls emitted_def)
qed

text \<open>
  C3. For each of the four data operations, started with the lines idle (clock low, reset
  low, data pin an input) and on three different pins, the calls it makes are framed:
  reset is high before the first clock edge and at every clock edge, the call that
  drives reset low comes after the last clock edge and finds the data pin switched to
  input. Each operation leaves the lines idle again.
\<close>

theorem transaction_framing:
  assumes pins: "distinct [clk_pin d, io_pin d, rst_pin d]"
    and start: "idle d s"
  shows "framed d s (emitted (read_datetime d) g) \<and> idle d (run s (emitted (read_datetime d) g))
       \<and> framed d s (emitted (write_datetime d dt) g) \<and> idle d (run s (emitted (write_datetime d dt) g))
       \<and> framed d s (emitted (read_ram d) g) \<and> idle d (run s (emitted (read_ram d) g))
       \<and> framed d s (emitted (write_ram d ram) g) \<and> idle d (run s (emitted (write_ram d ram) g))"
proof -
  have ne: "rst_pin d \<noteq> clk_pin d" "rst_pin d \<noteq> io_pin d"
    using pins by auto
  have low: "level s (clk_pin d) = LOW"
    using start by (simp add: idle_def)
  note w = write_calls_quiet [OF ne]
  note r = read_calls_quiet [OF ne]
  have tx: "framed d s (start_calls d @ mid @ end_calls d)
          \<and> idle d (run s (start_calls d @ mid @ end_calls d))"
    if "\<forall>c\<in>set mid. (\<forall>v. c \<noteq> Output (rst_pin d) v) \<and> (\<forall>t. level (step t c) (rst_pin d) = level t (rst_pin d))"
    for mid
    using framed_tx [OF pins low that] .
  have 1: "framed d s (emitted (read_datetime d) g) \<and> idle d (run s (emitted (read_datetime d) g))"
    unfolding emitted_read_datetime append_assoc [symmetric]
    unfolding append_assoc [of "start_calls d"]
    by (rule tx) (use w r in auto)
  have 3: "framed d s (emitted (read_ram d) g) \<and> idle d (run s (emitted (read_ram d) g))"
    unfolding emitted_read_ram by (rule tx) (use w r in auto)
  have 4: "framed d s (emitted (write_ram d ram) g) \<and> idle d (run s (emitted (write_ram d ram) g))"
    unfolding emitted_write_ram by (rule tx) (use w in auto)
  have 2: "framed d s (emitted (write_datetime d dt) g) \<and> idle d (run s (emitted (write_datetime d dt) g))"
  proof (cases "encode_regs dt")
    case (Inl e)
    then show ?thesis
      using start by (simp add: emitted_write_datetime run_Nil)
  next
    case (Inr regs)
    have "framed d s (start_calls d @ (write_calls d 0xBE @ concat (map (write_calls d) regs)) @ end_calls d)
        \<and> idle d (run s (start_calls d @ (write_calls d 0xBE @ concat (map (write_calls d) regs)) @ end_calls d))"
      by (rule tx) (use w in auto)
    then show ?thesis
      by (simp add: emitted_write_datetime Inr)
  qed
  show ?thesis
    using 1 2 3 4 by blast
qed

text \<open>The constructor leaves the lines idle, whatever state they were in.\<close>

lemma init_idle:
  "init clk io rst mode g = (d, g') \<Longrightarrow> distinct [clk, io, rst] \<Longrightarrow>
   idle d (run s (emitted (init clk io rst mode) g))"
proof -
  assume i: "init clk io rst mode g = (d, g')" and pins: "distinct [clk, io, rst]"
  have d: "d = \<lparr>clk_pin = clk, io_pin = io, rst_pin = rst\<rparr>"
    using i by (simp add: init_calls)
  have pd: "distinct [clk_pin d, io_pin d, rst_pin d]"
    using pins by (simp add: d)
  have ne: "rst_pin d \<noteq> clk_pin d" "rst_pin d \<noteq> io_pin d"
    using pd by auto
  note w = write_calls_quiet [OF ne]
  have e: "emitted (init clk io rst mode) g =
      [Setmode mode, Setup [clk, rst] OUT (Some LOW)] @
      (start_calls d @ (write_calls d 0x8E @ write_calls d 0x00) @ end_calls d) @
      (start_calls d @ (write_calls d 0x90 @ write_calls d 0x00) @ end_calls d)"
    by (simp add: init_calls emitted_def d)
  let ?s1 = "run s [Setmode mode, Setup [clk, rst] OUT (Some LOW)]"
  have low1: "level ?s1 (clk_pin d) = LOW"
    by (simp add: run_def d)
  have t1: "idle d (run ?s1 (start_calls d @ (write_calls d 0x8E @ write_calls d 0x00) @ end_calls d))"
    using framed_tx [OF pd low1, of "write_calls d 0x8E @ write_calls d 0x00"] w by auto
  then have low2: "level (run ?s1 (start_calls d @ (write_calls d 0x8E @ write_calls d 0x00) @ end_calls d)) (clk_pin d) = LOW"
    by (simp add: idle_def)
  have t2: "idle d (run (run ?s1 (start_calls d @ (write_calls d 0x8E @ write_calls d 0x00) @ end_calls d))
       (start_calls d @ (write_calls d 0x90 @ write_calls d 0x00) @ end_calls d))"
    using framed_tx [OF pd low2, of "write_calls d 0x90 @ write_calls d 0x00"] w by auto
  show ?thesis
    using t2 by (simp only: e run_append)
qed

text \<open>
  An instance on the default pins: a write of two RAM bytes from the idle state is
  framed, and it does have clock edges.
\<close>

theorem transaction_framing_witness:
  "distinct [clk_pin \<lparr>clk_pin = 4, io_pin = 17, rst_pin = 27\<rparr>, io_pin \<lparr>clk_pin = 4, io_pin = 17, rst_pin = 27\<rparr>,
             rst_pin \<lparr>clk_pin = 4, io_pin = 17, rst_pin = 27\<rparr>]
   \<and> idle \<lparr>clk_pin = 4, io_pin = 17, rst_pin = 27\<rparr>
        \<lparr>level = (\<lambda>p. LOW), dir = (\<lambda>p. if p = 17 then Some IN else None)\<rparr>
   \<and> framed \<lparr>clk_pin = 4, io_pin = 17, rst_pin = 27\<rparr>
        \<lparr>level = (\<lambda>p. LOW), dir = (\<lambda>p. if p = 17 then Some IN else None)\<rparr>
        (emitted (write_ram \<lparr>clk_pin = 4, io_pin = 17, rst_pin = 27\<rparr> [0x12, 0x34])
           \<lparr>calls = [], feed = (\<lambda>n. False)\<rparr>)
   \<and> \<not> edge_free \<lparr>clk_pin = 4, io_pin = 17, rst_pin = 27\<rparr>
        \<lparr>level = (\<lambda>p. LOW), dir = (\<lambda>p. if p = 17 then Some IN else None)\<rparr>
        (emitted (write_ram \<lparr>clk_pin = 4, io_pin = 17, rst_pin = 27\<rparr> [0x12, 0x34])
           \<lparr>calls = [], feed = (\<lambda>n. False)\<rparr>)"
proof -
  have h1: "distinct [clk_pin \<lparr>clk_pin = 4, io_pin = 17, rst_pin = 27\<rparr>, io_pin \<lparr>clk_pin = 4, io_pin = 17, rst_pin = 27\<rparr>,
             rst_pin \<lparr>clk_pin = 4, io_pin = 17, rst_pin = 27\<rparr>]"
    by simp
  have h2: "idle \<lparr>clk_pin = 4, io_pin = 17, rst_pin = 27\<rparr>
        \<lparr>level = (\<lambda>p. LOW), dir = (\<lambda>p. if p = 17 then Some IN else None)\<rparr>"
    by (simp add: idle_def)
  have e: "\<not> edge_free \<lparr>clk_pin = 4, io_pin = 17, rst_pin = 27\<rparr>
        \<lparr>level = (\<lambda>p. LOW), dir = (\<lambda>p. if p = 17 then Some IN else None)\<rparr>
        (emitted (write_ram \<lparr>clk_pin = 4, io_pin = 17, rst_pin = 27\<rparr> [0x12, 0x34])
           \<lparr>calls = [], feed = (\<lambda>n. False)\<rparr>)"
    by (simp add: emitted_write_ram start_calls_def write_calls_def range8 clock_edge_def
        HIGH_def LOW_def)
  show ?thesis
    using transaction_framing [OF h1 h2, of "\<lparr>calls = [], feed = (\<lambda>n. False)\<rparr>" _ "[0x12, 0x34]"] h1 h2 e
    by blast
qed

section \<open>Encoding the calendar registers\<close>

lemma digit_table:
  "\<forall>k\<in>set [0..<16]. digit_val (digit_chars ! k) = Some k \<and> \<not> is_space (digit_chars ! k)"
  by code_simp

lemma digit_val_digit [simp]: "k < 16 \<Longrightarrow> digit_val (digit_chars ! k) = Some k"
  using digit_table by simp

lemma digit_not_space [simp]: "k < 16 \<Longrightarrow> \<not> is_space (digit_chars ! k)"
  using digit_table by simp

lemma dec_digits_small: "n < 10 \<Longrightarrow> dec_digits n = [digit_chars ! n]"
  by (simp add: dec_digits.simps)

lemma dec_digits_two:
  "10 \<le> n \<Longrightarrow> n < 100 \<Longrightarrow> dec_digits n = [digit_chars ! (n div 10), digit_chars ! (n mod 10)]"
  by (subst dec_digits.simps) (simp add: dec_digits_small)

lemma two_digits_eq:
  assumes "0 \<le> n" and "n \<le> 99"
  shows "two_digits n = [digit_chars ! (nat n div 10), digit_chars ! (nat n mod 10)]"
proof (cases "nat n < 10")
  case True
  then show ?thesis
    by (simp add: two_digits_def dec_digits_small digit_chars_def)
next
  case False
  then show ?thesis
    using assms by (simp add: two_digits_def dec_digits_two)
qed

lemma split_ws_token:
  "\<forall>c\<in>set t. \<not> is_space c \<Longrightarrow> split_ws w (t @ s) = split_ws (w @ t) s"
  by (induction t arbitrary: w) simp_all

lemma space_is_space [simp]: "is_space CHR '' ''"
  by (simp add: is_space_def)

lemma prefix_not_space [simp]: "\<not> is_space CHR ''0''" "\<not> is_space CHR ''x''"
  by (simp_all add: is_space_def)

lemma py_int_hex2:
  "a < 16 \<Longrightarrow> b < 16 \<Longrightarrow>
   py_int (''0x'' @ [digit_chars ! a, digit_chars ! b]) 16 = Inr (16 * int a + int b)"
  by (simp add: py_int_def strip_def Let_def)

lemma py_int_hex1:
  "a < 16 \<Longrightarrow> py_int (''0x'' @ [digit_chars ! a]) 16 = Inr (int a)"
  by (simp add: py_int_def strip_def Let_def)

lemma int_all_tokens:
  assumes "a1 < 10" "b1 < 10" "a2 < 10" "b2 < 10" "a3 < 10" "b3 < 10" "a4 < 10" "b4 < 10"
    "a5 < 10" "b5 < 10" "w < 10" "a7 < 10" "b7 < 10"
  shows "int_all (split ([digit_chars ! a1, digit_chars ! b1] @ CHR '' '' #
                         [digit_chars ! a2, digit_chars ! b2] @ CHR '' '' #
                         [digit_chars ! a3, digit_chars ! b3] @ CHR '' '' #
                         [digit_chars ! a4, digit_chars ! b4] @ CHR '' '' #
                         [digit_chars ! a5, digit_chars ! b5] @ CHR '' '' #
                         [digit_chars ! w] @ CHR '' '' #
                         [digit_chars ! a7, digit_chars ! b7]))
       = Inr [16 * int a1 + int b1, 16 * int a2 + int b2, 16 * int a3 + int b3,
              16 * int a4 + int b4, 16 * int a5 + int b5, int w, 16 * int a7 + int b7]"
proof -
  have lt: "a1 < 16" "b1 < 16" "a2 < 16" "b2 < 16" "a3 < 16" "b3 < 16" "a4 < 16" "b4 < 16"
    "a5 < 16" "b5 < 16" "w < 16" "a7 < 16" "b7 < 16"
    using assms by simp_all
  have h2: "py_int (CHR ''0'' # CHR ''x'' # [digit_chars ! a, digit_chars ! b]) 16 = Inr (16 * int a + int b)"
    if "a < 16" "b < 16" for a b
    using py_int_hex2 [OF that] by simp
  have h1: "py_int (CHR ''0'' # CHR ''x'' # [digit_chars ! a]) 16 = Inr (int a)"
    if "a < 16" for a
    using py_int_hex1 [OF that] by simp
  show ?thesis
    using lt by (simp add: split_def h1 h2)
qed

lemma bcd_nat: "0 \<le> n \<Longrightarrow> 16 * int (nat n div 10) + int (nat n mod 10) = bcd n"
  by (simp add: bcd_def zdiv_int zmod_int)

lemma isoweekday_range: "1 \<le> isoweekday dt \<and> isoweekday dt \<le> 7"
  by (simp add: isoweekday_def Let_def) presburger

lemma strftime_fmt:
  "strftime dt DT_STR_FMT =
     two_digits (second dt) @ CHR '' '' # two_digits (minute dt) @ CHR '' '' #
     two_digits (hour dt) @ CHR '' '' # two_digits (day dt) @ CHR '' '' #
     two_digits (month dt) @ CHR '' '' # dec_digits (nat (isoweekday dt)) @ CHR '' '' #
     two_digits (year dt mod 100)"
  by (simp add: DT_STR_FMT_def conversion_def)

lemma days_in_month_le: "1 \<le> m \<Longrightarrow> m \<le> 12 \<Longrightarrow> days_in_month y m \<le> 31"
proof -
  assume m: "1 \<le> m" "m \<le> 12"
  have t: "\<forall>k\<in>set [1..<13]. DAYS_IN_MONTH ! k \<le> 31"
    by code_simp
  have "nat m \<in> set [1..<13]"
    using m by auto
  then have "DAYS_IN_MONTH ! nat m \<le> 31"
    using t by blast
  then show ?thesis
    by (simp add: days_in_month_def)
qed

lemma encode_regs_bcd:
  assumes "valid_datetime dt"
  shows "encode_regs dt =
     Inr (map bcd [second dt, minute dt, hour dt, day dt, month dt, isoweekday dt,
                   year dt mod 100] @ [0, 0])"
proof -
  have d: "check_date_fields (year dt) (month dt) (day dt)"
    and t: "check_time_fields (hour dt) (minute dt) (second dt) (microsecond dt)"
    using assms by (simp_all add: valid_datetime_def)
  have day: "1 \<le> day dt" "day dt \<le> 31"
    using d days_in_month_le [of "month dt" "year dt"] by (auto simp: check_date_fields_def)
  have r: "0 \<le> second dt" "second dt \<le> 99" "0 \<le> minute dt" "minute dt \<le> 99"
    "0 \<le> hour dt" "hour dt \<le> 99" "0 \<le> day dt" "day dt \<le> 99"
    "0 \<le> month dt" "month dt \<le> 99" "0 \<le> year dt mod 100" "year dt mod 100 \<le> 99"
    using d t day by (simp_all add: check_date_fields_def check_time_fields_def)
  have w: "1 \<le> isoweekday dt" "isoweekday dt \<le> 7"
    using isoweekday_range [of dt] by simp_all
  have wd: "dec_digits (nat (isoweekday dt)) = [digit_chars ! nat (isoweekday dt)]"
    using w by (simp add: dec_digits_small)
  have lt: "nat n div 10 < 10" "nat n mod 10 < 10" if "0 \<le> n" "n \<le> 99" for n :: int
    using that by simp_all
  have wl: "nat (isoweekday dt) < 10"
    using w by simp
  have wb: "int (nat (isoweekday dt)) = bcd (isoweekday dt)"
    using w by (simp add: bcd_def)
  have "int_all (split (strftime dt DT_STR_FMT)) =
      Inr (map bcd [second dt, minute dt, hour dt, day dt, month dt, isoweekday dt, year dt mod 100])"
    unfolding strftime_fmt wd
      two_digits_eq [OF r(1,2)] two_digits_eq [OF r(3,4)] two_digits_eq [OF r(5,6)]
      two_digits_eq [OF r(7,8)] two_digits_eq [OF r(9,10)] two_digits_eq [OF r(11,12)]
    by (subst int_all_tokens)
       (simp_all only: lt [OF r(1,2)] lt [OF r(3,4)] lt [OF r(5,6)] lt [OF r(7,8)] lt [OF r(9,10)]
          lt [OF r(11,12)] wl wb bcd_nat [OF r(1)] bcd_nat [OF r(3)] bcd_nat [OF r(5)]
          bcd_nat [OF r(7)] bcd_nat [OF r(9)] bcd_nat [OF r(11)] list.map)
  then show ?thesis
    by (simp add: encode_regs_def eval_nat_numeral)
qed

section \<open>Decoding the calendar registers\<close>

lemma match_alt_shape:
  "match_alt alt t = Some (u, r) \<Longrightarrow> u @ r = t \<and> length u = length alt"
proof (induction alt arbitrary: t u r)
  case Nil
  then show ?case by simp
next
  case (Cons cls alt)
  then show ?case
    by (cases t) (auto split: if_splits)
qed

lemma match_alt_append:
  "length alt \<le> length t \<Longrightarrow>
   match_alt alt (t @ s) = map_option (\<lambda>(u, r). (u, r @ s)) (match_alt alt t)"
proof (induction alt arbitrary: t)
  case Nil
  then show ?case by simp
next
  case (Cons cls alt)
  show ?case
  proof (cases t)
    case Nil
    then show ?thesis using Cons.prems by simp
  next
    case (Cons a list)
    then show ?thesis
      using Cons.IH [of list] Cons.prems by (cases "match_alt alt list") auto
  qed
qed

lemma match_alt_overrun:
  "length t < length alt \<Longrightarrow> x \<notin> set (alt ! length t) \<Longrightarrow> match_alt alt (t @ x # s) = None"
proof (induction alt arbitrary: t)
  case Nil
  then show ?case by simp
next
  case (Cons cls alt)
  then show ?case
    by (cases t) auto
qed

lemma spaces_none:
  "s = [] \<or> \<not> is_space (hd s) \<Longrightarrow> re_match (Spaces # its) s = None"
  by (cases s) auto

lemma spaces_one:
  "s = [] \<or> \<not> is_space (hd s) \<Longrightarrow>
   re_match (Spaces # its) (CHR '' '' # s) = re_match its s"
  by (cases s) (auto split: option.splits)

lemma alt_full:
  assumes "match_alt alt t = Some (t, [])" and "rest \<noteq> []" and "\<not> is_space (hd rest)"
  shows "match_alt alt (t @ CHR '' '' # rest) = Some (t, CHR '' '' # rest)"
    and "re_match (Spaces # its) (CHR '' '' # rest) = re_match its rest"
proof -
  have "length alt = length t"
    using match_alt_shape [OF assms(1)] by simp
  then show "match_alt alt (t @ CHR '' '' # rest) = Some (t, CHR '' '' # rest)"
    using match_alt_append [of alt t "CHR '' '' # rest"] assms(1) by simp
  show "re_match (Spaces # its) (CHR '' '' # rest) = re_match its rest"
    using assms(3) by (intro spaces_one) simp
qed

lemma alt_partial:
  assumes t: "t \<noteq> []" "\<forall>c\<in>set t. \<not> is_space c"
    and wf: "\<forall>i. 0 < i \<and> i < length alt \<longrightarrow> CHR '' '' \<notin> set (alt ! i)"
    and nf: "match_alt alt t \<noteq> Some (t, [])"
    and m: "match_alt alt (t @ CHR '' '' # rest) = Some (u, r)"
  shows "re_match (Spaces # its) r = None"
proof (cases "length alt \<le> length t")
  case True
  then obtain r' where a: "match_alt alt t = Some (u, r')" and r: "r = r' @ CHR '' '' # rest"
    using m match_alt_append [OF True, of "CHR '' '' # rest"]
    by (cases "match_alt alt t") auto
  have "u @ r' = t"
    using match_alt_shape [OF a] by simp
  then have "r' \<noteq> []" "set r' \<subseteq> set t"
    using nf a by auto
  then have "\<not> is_space (hd r)"
    using t(2) r by (cases r') auto
  then show ?thesis
    by (intro spaces_none) simp
next
  case False
  then have "length t < length alt" by simp
  moreover have "CHR '' '' \<notin> set (alt ! length t)"
    using wf t(1) False by simp
  ultimately have "match_alt alt (t @ CHR '' '' # rest) = None"
    by (rule match_alt_overrun)
  then show ?thesis
    using m by simp
qed

lemma try_alts_token:
  assumes t: "t \<noteq> []" "\<forall>c\<in>set t. \<not> is_space c"
    and rest: "rest \<noteq> []" "\<not> is_space (hd rest)"
    and wf: "\<forall>alt\<in>set alts. \<forall>i. 0 < i \<and> i < length alt \<longrightarrow> CHR '' '' \<notin> set (alt ! i)"
  shows "try_alts k alts (Spaces # its) (t @ CHR '' '' # rest) =
     (if full_match alts t
      then (case re_match its rest of Some (found, e) \<Rightarrow> Some ((k, t) # found, e) | None \<Rightarrow> None)
      else None)"
  using wf
proof (induction alts)
  case Nil
  then show ?case by (simp add: full_match_def)
next
  case (Cons alt alts)
  have wfa: "\<forall>i. 0 < i \<and> i < length alt \<longrightarrow> CHR '' '' \<notin> set (alt ! i)"
    using Cons.prems by simp
  have ih: "try_alts k alts (Spaces # its) (t @ CHR '' '' # rest) =
     (if full_match alts t
      then (case re_match its rest of Some (found, e) \<Rightarrow> Some ((k, t) # found, e) | None \<Rightarrow> None)
      else None)"
    using Cons.IH Cons.prems by simp
  show ?case
  proof (cases "match_alt alt t = Some (t, [])")
    case True
    have f: "full_match (alt # alts) t"
      using True by (simp add: full_match_def)
    show ?thesis
      using alt_full [OF True rest] ih f
      by (cases "re_match its rest") (auto simp del: re_match.simps)
  next
    case False
    have f: "full_match (alt # alts) t = full_match alts t"
      using False by (simp add: full_match_def)
    have "try_alts k (alt # alts) (Spaces # its) (t @ CHR '' '' # rest) =
        try_alts k alts (Spaces # its) (t @ CHR '' '' # rest)"
    proof (cases "match_alt alt (t @ CHR '' '' # rest)")
      case None
      then show ?thesis by simp
    next
      case (Some ur)
      obtain u r where ur: "ur = (u, r)" by (cases ur)
      have "re_match (Spaces # its) r = None"
        using alt_partial [OF t wfa False] Some ur by simp
      then show ?thesis
        using Some ur by (simp del: re_match.simps)
    qed
    then show ?thesis
      using ih f by simp
  qed
qed

lemma table_token:
  "\<forall>r\<in>set [0..<256]. hex_digits r \<noteq> [] \<and> list_all (\<lambda>c. \<not> is_space c) (hex_digits r)"
  by code_simp

lemma table_int:
  "\<forall>r\<in>set [0..<256]. is_bcd (int r) \<longrightarrow> py_int (hex_digits r) 10 = Inr (unbcd (int r))"
  by code_simp

lemma table_S:
  "\<forall>r\<in>set [0..<256]. full_match (the (directive_re CHR ''S'')) (hex_digits r) =
     (is_bcd (int r) \<and> unbcd (int r) \<le> 61)"
  by code_simp

lemma table_M:
  "\<forall>r\<in>set [0..<256]. full_match (the (directive_re CHR ''M'')) (hex_digits r) =
     (is_bcd (int r) \<and> unbcd (int r) \<le> 59)"
  by code_simp

lemma table_H:
  "\<forall>r\<in>set [0..<256]. full_match (the (directive_re CHR ''H'')) (hex_digits r) =
     (is_bcd (int r) \<and> unbcd (int r) \<le> 23)"
  by code_simp

lemma table_d:
  "\<forall>r\<in>set [0..<256]. full_match (the (directive_re CHR ''d'')) (hex_digits r) =
     (is_bcd (int r) \<and> 1 \<le> unbcd (int r) \<and> unbcd (int r) \<le> 31)"
  by code_simp

lemma table_m:
  "\<forall>r\<in>set [0..<256]. full_match (the (directive_re CHR ''m'')) (hex_digits r) =
     (is_bcd (int r) \<and> 1 \<le> unbcd (int r) \<and> unbcd (int r) \<le> 12)"
  by code_simp

lemma table_u:
  "\<forall>r\<in>set [0..<256]. full_match (the (directive_re CHR ''u'')) (hex_digits r) =
     (is_bcd (int r) \<and> 1 \<le> unbcd (int r) \<and> unbcd (int r) \<le> 7)"
  by code_simp

lemma table_y:
  "\<forall>r\<in>set [0..<256]. try_alts CHR ''y'' (the (directive_re CHR ''y'')) [] (hex_digits r) =
     (if is_bcd (int r) \<and> 16 \<le> r then Some ([(CHR ''y'', hex_digits r)], []) else None)"
  by code_simp

lemma pattern_fmt:
  "pattern DT_STR_FMT =
     Some [Dir CHR ''S'' (the (directive_re CHR ''S'')), Spaces,
           Dir CHR ''M'' (the (directive_re CHR ''M'')), Spaces,
           Dir CHR ''H'' (the (directive_re CHR ''H'')), Spaces,
           Dir CHR ''d'' (the (directive_re CHR ''d'')), Spaces,
           Dir CHR ''m'' (the (directive_re CHR ''m'')), Spaces,
           Dir CHR ''u'' (the (directive_re CHR ''u'')), Spaces,
           Dir CHR ''y'' (the (directive_re CHR ''y''))]"
  by code_simp

lemma table_wf:
  "\<forall>k\<in>set ''SMHdmu''. \<forall>alt\<in>set (the (directive_re k)). \<forall>i\<in>set [1..<length alt]. CHR '' '' \<notin> set (alt ! i)"
  by code_simp

lemma byte_nat: "0 \<le> r \<Longrightarrow> r \<le> 255 \<Longrightarrow> nat r \<in> set [0..<256] \<and> int (nat r) = r"
  by auto

lemma format_x_byte: "0 \<le> r \<Longrightarrow> format_x r = hex_digits (nat r)"
  by (simp add: format_x_def)

lemma token_facts:
  assumes "0 \<le> r" and "r \<le> 255"
  shows "format_x r \<noteq> []" and "\<forall>c\<in>set (format_x r). \<not> is_space c"
    and "\<not> is_space (hd (format_x r @ s))"
proof -
  have a: "hex_digits (nat r) \<noteq> [] \<and> list_all (\<lambda>c. \<not> is_space c) (hex_digits (nat r))"
    using table_token byte_nat [OF assms] by blast
  show 1: "format_x r \<noteq> []"
    using a assms by (simp add: format_x_byte)
  show 2: "\<forall>c\<in>set (format_x r). \<not> is_space c"
    using a assms by (simp add: format_x_byte list_all_iff)
  show "\<not> is_space (hd (format_x r @ s))"
    using 1 2 by (cases "format_x r") auto
qed

lemma directive_wf:
  assumes "k \<in> set ''SMHdmu''"
  shows "\<forall>alt\<in>set (the (directive_re k)). \<forall>i. 0 < i \<and> i < length alt \<longrightarrow> CHR '' '' \<notin> set (alt ! i)"
proof (intro ballI allI impI)
  fix alt i
  assume a: "alt \<in> set (the (directive_re k))" and i: "0 < i \<and> i < length alt"
  then have "i \<in> set [1..<length alt]" by simp
  then show "CHR '' '' \<notin> set (alt ! i)"
    using table_wf assms a by blast
qed

lemma dir_token:
  assumes "0 \<le> r" and "r \<le> 255" and "k \<in> set ''SMHdmu''"
    and "rest \<noteq> []" and "\<not> is_space (hd rest)"
  shows "re_match (Dir k (the (directive_re k)) # Spaces # its) (format_x r @ CHR '' '' # rest) =
     (if full_match (the (directive_re k)) (format_x r)
      then (case re_match its rest of Some (found, e) \<Rightarrow> Some ((k, format_x r) # found, e) | None \<Rightarrow> None)
      else None)"
  using try_alts_token [OF token_facts(1,2) [OF assms(1,2)] assms(4,5) directive_wf [OF assms(3)]]
  by simp

lemma fm_tables:
  assumes "0 \<le> r" and "r \<le> 255"
  shows "full_match (the (directive_re CHR ''S'')) (format_x r) = (is_bcd r \<and> unbcd r \<le> 61)"
    and "full_match (the (directive_re CHR ''M'')) (format_x r) = (is_bcd r \<and> unbcd r \<le> 59)"
    and "full_match (the (directive_re CHR ''H'')) (format_x r) = (is_bcd r \<and> unbcd r \<le> 23)"
    and "full_match (the (directive_re CHR ''d'')) (format_x r) = (is_bcd r \<and> 1 \<le> unbcd r \<and> unbcd r \<le> 31)"
    and "full_match (the (directive_re CHR ''m'')) (format_x r) = (is_bcd r \<and> 1 \<le> unbcd r \<and> unbcd r \<le> 12)"
    and "full_match (the (directive_re CHR ''u'')) (format_x r) = (is_bcd r \<and> 1 \<le> unbcd r \<and> unbcd r \<le> 7)"
    and "re_match [Dir CHR ''y'' (the (directive_re CHR ''y''))] (format_x r) =
           (if is_bcd r \<and> 16 \<le> r then Some ([(CHR ''y'', format_x r)], []) else None)"
    and "is_bcd r \<Longrightarrow> py_int (format_x r) 10 = Inr (unbcd r)"
proof -
  note n = byte_nat [OF assms]
  have f: "format_x r = hex_digits (nat r)"
    using assms by (simp add: format_x_byte)
  have i: "int (nat r) = r" "(16 \<le> nat r) = (16 \<le> r)"
    using assms by auto
  show "full_match (the (directive_re CHR ''S'')) (format_x r) = (is_bcd r \<and> unbcd r \<le> 61)"
    using table_S n unfolding f by (metis i(1))
  show "full_match (the (directive_re CHR ''M'')) (format_x r) = (is_bcd r \<and> unbcd r \<le> 59)"
    using table_M n unfolding f by (metis i(1))
  show "full_match (the (directive_re CHR ''H'')) (format_x r) = (is_bcd r \<and> unbcd r \<le> 23)"
    using table_H n unfolding f by (metis i(1))
  show "full_match (the (directive_re CHR ''d'')) (format_x r) = (is_bcd r \<and> 1 \<le> unbcd r \<and> unbcd r \<le> 31)"
    using table_d n unfolding f by (metis i(1))
  show "full_match (the (directive_re CHR ''m'')) (format_x r) = (is_bcd r \<and> 1 \<le> unbcd r \<and> unbcd r \<le> 12)"
    using table_m n unfolding f by (metis i(1))
  show "full_match (the (directive_re CHR ''u'')) (format_x r) = (is_bcd r \<and> 1 \<le> unbcd r \<and> unbcd r \<le> 7)"
    using table_u n unfolding f by (metis i(1))
  have "try_alts CHR ''y'' (the (directive_re CHR ''y'')) [] (hex_digits (nat r)) =
     (if is_bcd (int (nat r)) \<and> 16 \<le> nat r then Some ([(CHR ''y'', hex_digits (nat r))], []) else None)"
    using table_y n by blast
  then show "re_match [Dir CHR ''y'' (the (directive_re CHR ''y''))] (format_x r) =
           (if is_bcd r \<and> 16 \<le> r then Some ([(CHR ''y'', format_x r)], []) else None)"
    unfolding f i by simp
  show "py_int (format_x r) 10 = Inr (unbcd r)" if "is_bcd r"
    using table_int n that unfolding f by (metis i(1))
qed

lemma join_frame:
  "join '' '' (map format_x [r1, r2, r3, r4, r5, r6, r7]) =
     format_x r1 @ CHR '' '' # format_x r2 @ CHR '' '' # format_x r3 @ CHR '' '' #
     format_x r4 @ CHR '' '' # format_x r5 @ CHR '' '' # format_x r6 @ CHR '' '' # format_x r7"
  by simp

lemma re_match_frame:
  assumes b: "0 \<le> r1" "r1 \<le> 255" "0 \<le> r2" "r2 \<le> 255" "0 \<le> r3" "r3 \<le> 255"
    "0 \<le> r4" "r4 \<le> 255" "0 \<le> r5" "r5 \<le> 255" "0 \<le> r6" "r6 \<le> 255" "0 \<le> r7" "r7 \<le> 255"
  shows "re_match (the (pattern DT_STR_FMT)) (join '' '' (map format_x [r1, r2, r3, r4, r5, r6, r7])) =
     (if (is_bcd r1 \<and> unbcd r1 \<le> 61) \<and> (is_bcd r2 \<and> unbcd r2 \<le> 59)
         \<and> (is_bcd r3 \<and> unbcd r3 \<le> 23) \<and> (is_bcd r4 \<and> 1 \<le> unbcd r4 \<and> unbcd r4 \<le> 31)
         \<and> (is_bcd r5 \<and> 1 \<le> unbcd r5 \<and> unbcd r5 \<le> 12)
         \<and> (is_bcd r6 \<and> 1 \<le> unbcd r6 \<and> unbcd r6 \<le> 7) \<and> (is_bcd r7 \<and> 16 \<le> r7)
      then Some ([(CHR ''S'', format_x r1), (CHR ''M'', format_x r2), (CHR ''H'', format_x r3),
                  (CHR ''d'', format_x r4), (CHR ''m'', format_x r5), (CHR ''u'', format_x r6),
                  (CHR ''y'', format_x r7)], [])
      else None)"
proof -
  note t2 = token_facts [OF b(3,4)] and t3 = token_facts [OF b(5,6)] and t4 = token_facts [OF b(7,8)]
    and t5 = token_facts [OF b(9,10)] and t6 = token_facts [OF b(11,12)]
    and t7 = token_facts [OF b(13,14)]
  have ne: "x @ y \<noteq> []" if "x \<noteq> []" for x y :: string
    using that by simp
  have h7: "\<not> is_space (hd (format_x r7))"
    using t7(3) [of "[]"] by simp
  note d1 = dir_token [OF b(1,2) _ ne [OF t2(1)] t2(3)]
    and d2 = dir_token [OF b(3,4) _ ne [OF t3(1)] t3(3)]
    and d3 = dir_token [OF b(5,6) _ ne [OF t4(1)] t4(3)]
    and d4 = dir_token [OF b(7,8) _ ne [OF t5(1)] t5(3)]
    and d5 = dir_token [OF b(9,10) _ ne [OF t6(1)] t6(3)]
    and d6 = dir_token [OF b(11,12) _ t7(1) h7]
  show ?thesis
    unfolding pattern_fmt option.sel join_frame
    by (subst d1, simp, subst d2, simp, subst d3, simp, subst d4, simp, subst d5, simp,
        subst d6, simp)
       (simp add: fm_tables [OF b(1,2)] fm_tables [OF b(3,4)] fm_tables [OF b(5,6)]
          fm_tables [OF b(7,8)] fm_tables [OF b(9,10)] fm_tables [OF b(11,12)]
          fm_tables [OF b(13,14)] del: re_match.simps)
qed

lemma decode_frame:
  assumes b: "0 \<le> r1" "r1 \<le> 255" "0 \<le> r2" "r2 \<le> 255" "0 \<le> r3" "r3 \<le> 255"
    "0 \<le> r4" "r4 \<le> 255" "0 \<le> r5" "r5 \<le> 255" "0 \<le> r6" "r6 \<le> 255" "0 \<le> r7" "r7 \<le> 255"
  shows "decode_regs [r1, r2, r3, r4, r5, r6, r7] =
     (if frame_ok [r1, r2, r3, r4, r5, r6, r7]
      then new_datetime (if unbcd r7 \<le> 68 then unbcd r7 + 2000 else unbcd r7 + 1900)
             (unbcd r5) (unbcd r4) (unbcd r3) (unbcd r2) (unbcd r1) 0
      else Inl ValueError)"
proof -
  obtain re where p: "pattern DT_STR_FMT = Some re"
    using pattern_fmt by blast
  note m = re_match_frame [OF b, unfolded p option.sel]
  show ?thesis
  proof (cases "frame_ok [r1, r2, r3, r4, r5, r6, r7]")
    case False
    then have "re_match re (join '' '' (map format_x [r1, r2, r3, r4, r5, r6, r7])) = None"
      unfolding m by (simp add: frame_ok_def)
    then show ?thesis
      using False by (simp add: decode_regs_def strptime_def p)
  next
    case True
    then have ok: "is_bcd r1" "is_bcd r2" "is_bcd r3" "is_bcd r4" "is_bcd r5" "is_bcd r6" "is_bcd r7"
      by (simp_all add: frame_ok_def)
    have f: "re_match re (join '' '' (map format_x [r1, r2, r3, r4, r5, r6, r7])) =
        Some ([(CHR ''S'', format_x r1), (CHR ''M'', format_x r2), (CHR ''H'', format_x r3),
               (CHR ''d'', format_x r4), (CHR ''m'', format_x r5), (CHR ''u'', format_x r6),
               (CHR ''y'', format_x r7)], [])"
      unfolding m using True by (simp add: frame_ok_def)
    note v = fm_tables(8) [OF b(1,2) ok(1)] fm_tables(8) [OF b(3,4) ok(2)]
      fm_tables(8) [OF b(5,6) ok(3)] fm_tables(8) [OF b(7,8) ok(4)] fm_tables(8) [OF b(9,10) ok(5)]
      fm_tables(8) [OF b(11,12) ok(6)] fm_tables(8) [OF b(13,14) ok(7)]
    have c: "convert_all [(CHR ''S'', format_x r1), (CHR ''M'', format_x r2), (CHR ''H'', format_x r3),
               (CHR ''d'', format_x r4), (CHR ''m'', format_x r5), (CHR ''u'', format_x r6),
               (CHR ''y'', format_x r7)] parsed_default =
        Inr \<lparr>p_year = Some (if unbcd r7 \<le> 68 then unbcd r7 + 2000 else unbcd r7 + 1900),
             p_month = unbcd r5, p_day = unbcd r4, p_hour = unbcd r3, p_minute = unbcd r2,
             p_second = unbcd r1, p_weekday = Some (unbcd r6 - 1)\<rparr>"
      by (simp add: convert_def v parsed_default_def)
    show ?thesis
      using True
      by (simp only: decode_regs_def strptime_def p option.case f prod.case)
         (auto simp add: c new_datetime_def Let_def simp del: convert_all.simps)
  qed
qed

lemma assemble_byte: "0 \<le> assemble f \<and> assemble f \<le> 255"
proof -
  have "bit (assemble f) n = bit (take_bit 8 (assemble f)) n" for n
    by (auto simp: assemble_def bit_assemble bit_take_bit_iff)
  then have "assemble f = take_bit 8 (assemble f)"
    by (rule bit_eqI)
  moreover have "0 \<le> take_bit 8 (assemble f)" "take_bit 8 (assemble f) < 2 ^ 8"
    by (simp_all only: take_bit_nonnegative take_bit_int_less_exp)
  ultimately show ?thesis by simp
qed

lemma range7: "[0..<7] = [0, 1, 2, 3, 4, 5, 6]"
  by code_simp

lemma read_datetime_frame: "fst (read_datetime d g) = decode_regs (frame g)"
  by (simp only: read_datetime_calls fst_conv frame_def)

text \<open>
  C6. When a byte of the register frame read has a nibble above 9, or the digits of a
  field spell a number outside its range, \<^verbatim>\<open>read_datetime\<close> returns the \<^verbatim>\<open>ValueError\<close>
  of \<^verbatim>\<open>strptime\<close> to its caller, and no calendar value.
\<close>

theorem decode_rejects:
  assumes "(\<exists>r\<in>set (frame g). \<not> is_bcd r) \<or> \<not> fields_in_range (frame g)"
  shows "fst (read_datetime d g) = Inl ValueError"
proof -
  obtain r1 r2 r3 r4 r5 r6 r7 where fr: "frame g = [r1, r2, r3, r4, r5, r6, r7]"
    by (simp add: frame_def range7)
  have "\<forall>r\<in>set (frame g). 0 \<le> r \<and> r \<le> 255"
    using assemble_byte by (auto simp: frame_def)
  then have b: "0 \<le> r1" "r1 \<le> 255" "0 \<le> r2" "r2 \<le> 255" "0 \<le> r3" "r3 \<le> 255"
    "0 \<le> r4" "r4 \<le> 255" "0 \<le> r5" "r5 \<le> 255" "0 \<le> r6" "r6 \<le> 255" "0 \<le> r7" "r7 \<le> 255"
    by (simp_all add: fr)
  note dec = decode_frame [OF b]
  show ?thesis
  proof (cases "frame_ok [r1, r2, r3, r4, r5, r6, r7]")
    case False
    then show ?thesis
      by (simp only: read_datetime_frame fr dec if_False)
  next
    case True
    then have ok: "is_bcd r1" "is_bcd r2" "is_bcd r3" "is_bcd r4" "is_bcd r5" "is_bcd r6" "is_bcd r7"
      and rng: "unbcd r2 \<le> 59" "unbcd r3 \<le> 23" "1 \<le> unbcd r4" "unbcd r4 \<le> 31"
        "1 \<le> unbcd r5" "unbcd r5 \<le> 12" "1 \<le> unbcd r6" "unbcd r6 \<le> 7"
      by (simp_all add: frame_ok_def)
    have y: "unbcd r7 \<le> 99"
      using ok(7) b(13) by (simp add: is_bcd_def unbcd_def)
    have "\<not> fields_in_range [r1, r2, r3, r4, r5, r6, r7]"
      using assms ok by (simp add: fr)
    then have "\<not> unbcd r1 \<le> 59"
      using rng y by (simp add: fields_in_range_def)
    then have "\<not> check_time_fields (unbcd r3) (unbcd r2) (unbcd r1) 0"
      by (simp add: check_time_fields_def)
    then show ?thesis
      using True by (simp only: read_datetime_frame fr dec if_True) (simp add: new_datetime_def)
  qed
qed

text \<open>The instance of a frame whose seconds byte is 0x4A.\<close>

theorem decode_rejects_witness:
  "(\<exists>r\<in>set (frame \<lparr>calls = [], feed = (\<lambda>n. n < 56 \<and> bit ([0x4A, 0x30, 0x10, 0x15, 0x01, 0x01, 0x24] ! (n div 8) :: int) (n mod 8))\<rparr>). \<not> is_bcd r)
   \<and> fst (read_datetime \<lparr>clk_pin = 4, io_pin = 17, rst_pin = 27\<rparr>
        \<lparr>calls = [], feed = (\<lambda>n. n < 56 \<and> bit ([0x4A, 0x30, 0x10, 0x15, 0x01, 0x01, 0x24] ! (n div 8) :: int) (n mod 8))\<rparr>)
     = Inl ValueError"
proof -
  let ?g = "\<lparr>calls = [], feed = (\<lambda>n. n < 56 \<and> bit ([0x4A, 0x30, 0x10, 0x15, 0x01, 0x01, 0x24] ! (n div 8) :: int) (n mod 8))\<rparr>"
  have h: "\<exists>r\<in>set (frame ?g). \<not> is_bcd r"
    by code_simp
  then have "(\<exists>r\<in>set (frame ?g). \<not> is_bcd r) \<or> \<not> fields_in_range (frame ?g)"
    by blast
  from decode_rejects [OF this, of "\<lparr>clk_pin = 4, io_pin = 17, rst_pin = 27\<rparr>"] h
  show ?thesis by blast
qed

section \<open>Encoding followed by decoding\<close>

lemma bcd_facts:
  assumes "0 \<le> n" and "n \<le> 99"
  shows "is_bcd (bcd n)" and "unbcd (bcd n) = n" and "0 \<le> bcd n" and "bcd n \<le> 255"
    and "(16 \<le> bcd n) = (10 \<le> n)"
proof -
  have d: "bcd n div 16 = n div 10"
    unfolding bcd_def by presburger
  have m: "bcd n mod 16 = n mod 10"
    unfolding bcd_def by presburger
  show "is_bcd (bcd n)"
    using assms by (simp add: is_bcd_def d m) presburger
  show "unbcd (bcd n) = n"
    by (simp add: unbcd_def d m)
  show "0 \<le> bcd n" "bcd n \<le> 255" "(16 \<le> bcd n) = (10 \<le> n)"
    using assms unfolding bcd_def by presburger+
qed

text \<open>
  Writing and reading back returns the calendar value, microseconds dropped, for the
  years 1969 to 2068 whose last two digits are 10 or more.
\<close>

lemma roundtrip_from_1969_to_2068:
  assumes v: "valid_datetime dt"
    and y: "1969 \<le> year dt" "year dt \<le> 2068"
    and two: "10 \<le> year dt mod 100"
  shows "case encode_regs dt of
           Inl e \<Rightarrow> False
         | Inr regs \<Rightarrow> decode_regs (take 7 regs) = Inr (dt\<lparr>microsecond := 0\<rparr>)"
proof -
  have d: "check_date_fields (year dt) (month dt) (day dt)"
    and t: "check_time_fields (hour dt) (minute dt) (second dt) (microsecond dt)"
    using v by (simp_all add: valid_datetime_def)
  have day: "1 \<le> day dt" "day dt \<le> 31"
    using d days_in_month_le [of "month dt" "year dt"] by (auto simp: check_date_fields_def)
  have r: "0 \<le> second dt" "second dt \<le> 99" "0 \<le> minute dt" "minute dt \<le> 99"
    "0 \<le> hour dt" "hour dt \<le> 99" "0 \<le> day dt" "day dt \<le> 99"
    "0 \<le> month dt" "month dt \<le> 99" "0 \<le> isoweekday dt" "isoweekday dt \<le> 99"
    "0 \<le> year dt mod 100" "year dt mod 100 \<le> 99"
    using d t day isoweekday_range [of dt]
    by (simp_all add: check_date_fields_def check_time_fields_def)
  note f1 = bcd_facts [OF r(1,2)] and f2 = bcd_facts [OF r(3,4)] and f3 = bcd_facts [OF r(5,6)]
    and f4 = bcd_facts [OF r(7,8)] and f5 = bcd_facts [OF r(9,10)] and f6 = bcd_facts [OF r(11,12)]
    and f7 = bcd_facts [OF r(13,14)]
  have ok: "frame_ok [bcd (second dt), bcd (minute dt), bcd (hour dt), bcd (day dt), bcd (month dt),
                      bcd (isoweekday dt), bcd (year dt mod 100)]"
    using d t day isoweekday_range [of dt] two
    by (simp add: frame_ok_def f1 f2 f3 f4 f5 f6 f7 check_date_fields_def check_time_fields_def)
  have piv: "(if year dt mod 100 \<le> 68 then year dt mod 100 + 2000 else year dt mod 100 + 1900) = year dt"
    using y by presburger
  have "decode_regs [bcd (second dt), bcd (minute dt), bcd (hour dt), bcd (day dt), bcd (month dt),
                     bcd (isoweekday dt), bcd (year dt mod 100)] = Inr (dt\<lparr>microsecond := 0\<rparr>)"
    unfolding decode_frame [OF f1(3,4) f2(3,4) f3(3,4) f4(3,4) f5(3,4) f6(3,4) f7(3,4)]
      f1(2) f2(2) f3(2) f4(2) f5(2) f6(2) f7(2) piv
    using ok d t
    by (cases dt) (simp add: new_datetime_def check_time_fields_def)
  then show ?thesis
    by (simp add: encode_regs_bcd [OF v])
qed

lemma year_pivot:
  assumes "decode_regs (frame g) = Inr dt"
  shows "1969 \<le> year dt \<and> year dt \<le> 2068"
proof -
  obtain r1 r2 r3 r4 r5 r6 r7 where fr: "frame g = [r1, r2, r3, r4, r5, r6, r7]"
    by (simp add: frame_def range7)
  have "\<forall>r\<in>set (frame g). 0 \<le> r \<and> r \<le> 255"
    using assemble_byte by (auto simp: frame_def)
  then have b: "0 \<le> r1" "r1 \<le> 255" "0 \<le> r2" "r2 \<le> 255" "0 \<le> r3" "r3 \<le> 255"
    "0 \<le> r4" "r4 \<le> 255" "0 \<le> r5" "r5 \<le> 255" "0 \<le> r6" "r6 \<le> 255" "0 \<le> r7" "r7 \<le> 255"
    by (simp_all add: fr)
  have ok: "frame_ok [r1, r2, r3, r4, r5, r6, r7]"
    and n: "new_datetime (if unbcd r7 \<le> 68 then unbcd r7 + 2000 else unbcd r7 + 1900)
             (unbcd r5) (unbcd r4) (unbcd r3) (unbcd r2) (unbcd r1) 0 = Inr dt"
    using assms unfolding fr decode_frame [OF b] by (auto split: if_splits)
  have "is_bcd r7"
    using ok by (simp add: frame_ok_def)
  then have u: "0 \<le> unbcd r7" "unbcd r7 \<le> 99"
    using b(13) by (simp_all add: is_bcd_def unbcd_def)
  have "year dt = (if unbcd r7 \<le> 68 then unbcd r7 + 2000 else unbcd r7 + 1900)"
    using n by (auto simp: new_datetime_def split: if_splits)
  then show ?thesis
    using u by (simp split: if_splits)
qed

text \<open>
  In a year whose last two digits are below 10 the year byte is 0x00 to 0x09;
  \<^verbatim>\<open>"{:x}".format\<close> prints it as one character, \<^verbatim>\<open>%y\<close> asks for two, and decoding the
  frame just encoded raises.
\<close>

lemma single_digit_year_rejected:
  assumes v: "valid_datetime dt" and one: "year dt mod 100 < 10"
  shows "case encode_regs dt of
           Inl e \<Rightarrow> False
         | Inr regs \<Rightarrow> decode_regs (take 7 regs) = Inl ValueError"
proof -
  have d: "check_date_fields (year dt) (month dt) (day dt)"
    and t: "check_time_fields (hour dt) (minute dt) (second dt) (microsecond dt)"
    using v by (simp_all add: valid_datetime_def)
  have day: "1 \<le> day dt" "day dt \<le> 31"
    using d days_in_month_le [of "month dt" "year dt"] by (auto simp: check_date_fields_def)
  have r: "0 \<le> second dt" "second dt \<le> 99" "0 \<le> minute dt" "minute dt \<le> 99"
    "0 \<le> hour dt" "hour dt \<le> 99" "0 \<le> day dt" "day dt \<le> 99"
    "0 \<le> month dt" "month dt \<le> 99" "0 \<le> isoweekday dt" "isoweekday dt \<le> 99"
    "0 \<le> year dt mod 100" "year dt mod 100 \<le> 99"
    using d t day isoweekday_range [of dt]
    by (simp_all add: check_date_fields_def check_time_fields_def)
  note f1 = bcd_facts [OF r(1,2)] and f2 = bcd_facts [OF r(3,4)] and f3 = bcd_facts [OF r(5,6)]
    and f4 = bcd_facts [OF r(7,8)] and f5 = bcd_facts [OF r(9,10)] and f6 = bcd_facts [OF r(11,12)]
    and f7 = bcd_facts [OF r(13,14)]
  have "\<not> frame_ok [bcd (second dt), bcd (minute dt), bcd (hour dt), bcd (day dt), bcd (month dt),
                      bcd (isoweekday dt), bcd (year dt mod 100)]"
    using one by (simp add: frame_ok_def f7(5))
  then have "decode_regs [bcd (second dt), bcd (minute dt), bcd (hour dt), bcd (day dt), bcd (month dt),
                     bcd (isoweekday dt), bcd (year dt mod 100)] = Inl ValueError"
    unfolding decode_frame [OF f1(3,4) f2(3,4) f3(3,4) f4(3,4) f5(3,4) f6(3,4) f7(3,4)]
    by simp
  then show ?thesis
    by (simp add: encode_regs_bcd [OF v])
qed

lemma year_outside_window_not_returned:
  assumes "year dt < 1969 \<or> 2068 < year dt"
    and "fst (read_datetime d g) = Inr dt'"
  shows "year dt' \<noteq> year dt"
  using year_pivot [of g dt'] assms by (auto simp: read_datetime_frame)

text \<open>
  C1 at 2005-06-15 10:30:45: every field is within the ranges of the claim, the frame
  encoded is 45 30 10 15 06 03 05, its year byte is printed as the single character 5,
  and decoding the frame raises \<^verbatim>\<open>ValueError\<close> instead of returning the value.
\<close>

theorem roundtrip_fails_2005:
  "valid_datetime \<lparr>year = 2005, month = 6, day = 15, hour = 10, minute = 30, second = 45, microsecond = 0\<rparr>
   \<and> encode_regs \<lparr>year = 2005, month = 6, day = 15, hour = 10, minute = 30, second = 45, microsecond = 0\<rparr>
       = Inr [0x45, 0x30, 0x10, 0x15, 0x06, 0x03, 0x05, 0, 0]
   \<and> format_x 0x05 = ''5''
   \<and> decode_regs [0x45, 0x30, 0x10, 0x15, 0x06, 0x03, 0x05] = Inl ValueError"
proof -
  have 1: "valid_datetime \<lparr>year = 2005, month = 6, day = 15, hour = 10, minute = 30, second = 45, microsecond = 0\<rparr>"
    by code_simp
  have 2: "encode_regs \<lparr>year = 2005, month = 6, day = 15, hour = 10, minute = 30, second = 45, microsecond = 0\<rparr>
       = Inr [0x45, 0x30, 0x10, 0x15, 0x06, 0x03, 0x05, 0, 0]"
    by code_simp
  have 3: "format_x 0x05 = ''5''"
    by code_simp
  have 4: "decode_regs [0x45, 0x30, 0x10, 0x15, 0x06, 0x03, 0x05] = Inl ValueError"
    by code_simp
  show ?thesis
    using 1 2 3 4 by blast
qed

text \<open>
  C9 at the year bytes 0x00, 0x09, 0x10, 0x68, 0x69 and 0x99, on the first of January:
  the pivot puts 10 to 68 in 2010 to 2068 and 69 to 99 in 1969 to 1999, but the bytes
  0x00 and 0x09 do not decode to 2000 and 2009: they raise \<^verbatim>\<open>ValueError\<close>.
\<close>

theorem year_pivot_points:
  "map (\<lambda>y. decode_regs [0x00, 0x00, 0x00, 0x01, 0x01, 0x01, y]) [0x00, 0x09, 0x10, 0x68, 0x69, 0x99]
   = [Inl ValueError, Inl ValueError,
      Inr \<lparr>year = 2010, month = 1, day = 1, hour = 0, minute = 0, second = 0, microsecond = 0\<rparr>,
      Inr \<lparr>year = 2068, month = 1, day = 1, hour = 0, minute = 0, second = 0, microsecond = 0\<rparr>,
      Inr \<lparr>year = 1969, month = 1, day = 1, hour = 0, minute = 0, second = 0, microsecond = 0\<rparr>,
      Inr \<lparr>year = 1999, month = 1, day = 1, hour = 0, minute = 0, second = 0, microsecond = 0\<rparr>]"
  by code_simp

section \<open>What the operations put on the pins\<close>

lemma write_calls_bits:
  "write_calls d b =
     Setup [io_pin d] OUT None #
     concat (map (\<lambda>i. [Output (clk_pin d) LOW, Output (io_pin d) (of_bool (bit b i)),
                        Output (clk_pin d) HIGH]) [0..<8])"
  by (simp only: write_calls_def and_one_bit)

lemma length_byte_calls:
  "length (concat (map (write_calls d) bs)) = 25 * length bs"
  by (induction bs) (simp_all add: length_write_calls)

text \<open>
  C4. For every \<^verbatim>\<open>datetime\<close>, \<^verbatim>\<open>write_datetime\<close> raises nothing and adds to the log the
  calls of exactly one transaction: clock low and reset high; then, for each of the ten
  bytes 0xBE, the binary-coded decimal of second, minute, hour, day of month, month, ISO
  weekday and two-digit year, 0 and 0, the data pin set as output and the eight bits of
  the byte driven on it least significant bit first, each between a clock low and a
  clock high; then the data pin set as input, clock low and reset low.
\<close>

theorem write_datetime_frame:
  assumes "valid_datetime dt"
  shows "write_datetime d dt g =
     (Inr (),
      g\<lparr>calls := calls g @
         [Output (clk_pin d) LOW, Output (rst_pin d) HIGH] @
         concat (map (\<lambda>b. Setup [io_pin d] OUT None #
                            concat (map (\<lambda>i. [Output (clk_pin d) LOW,
                                               Output (io_pin d) (of_bool (bit b i)),
                                               Output (clk_pin d) HIGH]) [0..<8]))
                   ([0xBE] @
                    map bcd [second dt, minute dt, hour dt, day dt, month dt, isoweekday dt,
                             year dt mod 100] @
                    [0, 0])) @
         [Setup [io_pin d] IN None, Output (clk_pin d) LOW, Output (rst_pin d) LOW]\<rparr>)"
  by (simp only: write_datetime_calls [OF encode_regs_bcd [OF assms]] start_calls_def
      end_calls_def write_calls_bits [abs_def] append_Cons append_Nil list.map concat.simps
      append_assoc)

text \<open>The instance 2024-01-15 10:30:45, a Monday, on the default pins.\<close>

theorem write_datetime_frame_witness:
  "valid_datetime \<lparr>year = 2024, month = 1, day = 15, hour = 10, minute = 30, second = 45, microsecond = 0\<rparr>
   \<and> write_datetime \<lparr>clk_pin = 4, io_pin = 17, rst_pin = 27\<rparr>
        \<lparr>year = 2024, month = 1, day = 15, hour = 10, minute = 30, second = 45, microsecond = 0\<rparr>
        \<lparr>calls = [], feed = (\<lambda>n. False)\<rparr>
     = (Inr (),
        \<lparr>calls =
           [Output 4 LOW, Output 27 HIGH] @
           concat (map (\<lambda>b. Setup [17] OUT None #
                              concat (map (\<lambda>i. [Output 4 LOW, Output 17 (of_bool (bit b i)),
                                                 Output 4 HIGH]) [0..<8]))
                     [0xBE, 0x45, 0x30, 0x10, 0x15, 0x01, 0x01, 0x24, 0, 0 :: int]) @
           [Setup [17] IN None, Output 4 LOW, Output 27 LOW],
         feed = (\<lambda>n. False)\<rparr>)"
proof -
  let ?dt = "\<lparr>year = 2024, month = 1, day = 15, hour = 10, minute = 30, second = 45, microsecond = 0\<rparr>"
  have v: "valid_datetime ?dt"
    by code_simp
  have m: "[0xBE] @ map bcd [second ?dt, minute ?dt, hour ?dt, day ?dt, month ?dt, isoweekday ?dt,
                    year ?dt mod 100] @ [0, 0] = [0xBE, 0x45, 0x30, 0x10, 0x15, 0x01, 0x01, 0x24, 0, 0]"
    by code_simp
  note t = write_datetime_frame [OF v, of "\<lparr>clk_pin = 4, io_pin = 17, rst_pin = 27\<rparr>"
        "\<lparr>calls = [], feed = (\<lambda>n. False)\<rparr>", unfolded m ds1302.simps gpio.simps append_Nil]
  show ?thesis
    using v t by blast
qed

text \<open>
  C7. For every block, \<^verbatim>\<open>write_ram\<close> raises nothing and adds to the log the calls of one
  transaction that clocks out, bit by bit on the data pin, the command 0xFE and then
  the first 31 bytes of the block in order: all of them when the block has fewer, and
  nothing after them. The calls number 5 and 25 for each of the 1 + min(len, 31) bytes.
\<close>

theorem write_ram_truncates:
  "write_ram d ram g =
     (Inr (),
      g\<lparr>calls := calls g @
         [Output (clk_pin d) LOW, Output (rst_pin d) HIGH] @
         concat (map (\<lambda>b. Setup [io_pin d] OUT None #
                            concat (map (\<lambda>i. [Output (clk_pin d) LOW,
                                               Output (io_pin d) (of_bool (bit b i)),
                                               Output (clk_pin d) HIGH]) [0..<8]))
                   ([0xFE] @ take 31 ram)) @
         [Setup [io_pin d] IN None, Output (clk_pin d) LOW, Output (rst_pin d) LOW]\<rparr>)
   \<and> length (take 31 ram) = min (length ram) 31
   \<and> length (emitted (write_ram d ram) g) = 5 + 25 * (1 + min (length ram) 31)"
proof -
  have 1: "write_ram d ram g =
     (Inr (),
      g\<lparr>calls := calls g @
         [Output (clk_pin d) LOW, Output (rst_pin d) HIGH] @
         concat (map (\<lambda>b. Setup [io_pin d] OUT None #
                            concat (map (\<lambda>i. [Output (clk_pin d) LOW,
                                               Output (io_pin d) (of_bool (bit b i)),
                                               Output (clk_pin d) HIGH]) [0..<8]))
                   ([0xFE] @ take 31 ram)) @
         [Setup [io_pin d] IN None, Output (clk_pin d) LOW, Output (rst_pin d) LOW]\<rparr>)"
    by (simp only: write_ram_calls start_calls_def end_calls_def write_calls_bits [abs_def]
        append_Cons append_Nil list.map concat.simps append_assoc)
  have 2: "length (take 31 ram) = min (length ram) 31"
    by (simp add: min.commute)
  have 3: "length (emitted (write_ram d ram) g) = 5 + 25 * (1 + min (length ram) 31)"
    by (simp add: emitted_write_ram start_calls_def end_calls_def length_write_calls
        length_byte_calls min.commute)
  show ?thesis
    using 1 2 3 by blast
qed

lemma first_calls:
  "take 27 (start_calls d @ write_calls d b @ rest) =
     [Output (clk_pin d) LOW, Output (rst_pin d) HIGH, Setup [io_pin d] OUT None] @
     concat (map (\<lambda>i. [Output (clk_pin d) LOW, Output (io_pin d) (of_bool (bit b i)),
                        Output (clk_pin d) HIGH]) [0..<8])"
proof -
  have "length (start_calls d @ write_calls d b) = 27"
    by (simp add: start_calls_def length_write_calls)
  then have "take 27 (start_calls d @ write_calls d b @ rest) = start_calls d @ write_calls d b"
    by (metis append_assoc append_eq_conv_conj)
  then show ?thesis
    by (simp only: start_calls_def write_calls_bits append_Cons append_Nil)
qed

lemma emitted_init:
  "emitted (init clk io rst mode) g =
     [Setmode mode, Setup [clk, rst] OUT (Some LOW)] @
     start_calls \<lparr>clk_pin = clk, io_pin = io, rst_pin = rst\<rparr> @
     write_calls \<lparr>clk_pin = clk, io_pin = io, rst_pin = rst\<rparr> 0x8E @
     write_calls \<lparr>clk_pin = clk, io_pin = io, rst_pin = rst\<rparr> 0x00 @
     end_calls \<lparr>clk_pin = clk, io_pin = io, rst_pin = rst\<rparr> @
     start_calls \<lparr>clk_pin = clk, io_pin = io, rst_pin = rst\<rparr> @
     write_calls \<lparr>clk_pin = clk, io_pin = io, rst_pin = rst\<rparr> 0x90 @
     write_calls \<lparr>clk_pin = clk, io_pin = io, rst_pin = rst\<rparr> 0x00 @
     end_calls \<lparr>clk_pin = clk, io_pin = io, rst_pin = rst\<rparr>"
  by (simp add: init_calls emitted_def)

text \<open>
  C5. The command constants have the values of the table (write protect 0x8F and 0x8E,
  charge control 0x91 and 0x90, register burst 0xBF and 0xBE, RAM burst 0xFF and 0xFE).
  The first 27 calls of every data operation are clock low, reset high, the data pin
  set as output and the eight bits of the command of its target and direction clocked
  out on the data pin: 0xBF for \<^verbatim>\<open>read_datetime\<close>, 0xBE for \<^verbatim>\<open>write_datetime\<close>, 0xFF for
  \<^verbatim>\<open>read_ram\<close>, 0xFE for \<^verbatim>\<open>write_ram\<close>. The constructor configures the pins and makes
  two transactions, of the bytes 0x8E, 0 and 0x90, 0.
\<close>

theorem command_bytes:
  assumes "valid_datetime dt"
  shows "WP_REG_READ = 0x8F \<and> WP_REG_WRITE = 0x8E \<and> CHR_REG_READ = 0x91 \<and> CHR_REG_WRITE = 0x90
       \<and> REG_BURST_READ = 0xBF \<and> REG_BURST_WRITE = 0xBE \<and> RAM_BURST_READ = 0xFF
       \<and> RAW_BURST_WRITE = 0xFE
       \<and> (let first = (\<lambda>cmd :: int.
                  [Output (clk_pin d) LOW, Output (rst_pin d) HIGH, Setup [io_pin d] OUT None] @
                  concat (map (\<lambda>i. [Output (clk_pin d) LOW,
                                     Output (io_pin d) (of_bool (bit cmd i)),
                                     Output (clk_pin d) HIGH]) [0..<8]))
           in take 27 (emitted (read_datetime d) g) = first 0xBF
            \<and> take 27 (emitted (write_datetime d dt) g) = first 0xBE
            \<and> take 27 (emitted (read_ram d) g) = first 0xFF
            \<and> take 27 (emitted (write_ram d ram) g) = first 0xFE)
       \<and> (let byte = (\<lambda>b :: int.
                  Setup [io] OUT None #
                  concat (map (\<lambda>i. [Output clk LOW, Output io (of_bool (bit b i)),
                                     Output clk HIGH]) [0..<8]));
               tx = (\<lambda>bs. [Output clk LOW, Output rst HIGH] @ concat (map byte bs) @
                           [Setup [io] IN None, Output clk LOW, Output rst LOW])
           in emitted (init clk io rst mode) g =
                [Setmode mode, Setup [clk, rst] OUT (Some LOW)] @ tx [0x8E, 0x00] @ tx [0x90, 0x00])"
proof -
  have k: "WP_REG_READ = 0x8F \<and> WP_REG_WRITE = 0x8E \<and> CHR_REG_READ = 0x91 \<and> CHR_REG_WRITE = 0x90
       \<and> REG_BURST_READ = 0xBF \<and> REG_BURST_WRITE = 0xBE \<and> RAM_BURST_READ = 0xFF
       \<and> RAW_BURST_WRITE = 0xFE"
    by (simp add: WP_REG_READ_def WP_REG_WRITE_def CHR_REG_READ_def CHR_REG_WRITE_def
        REG_BURST_READ_def REG_BURST_WRITE_def RAM_BURST_READ_def RAW_BURST_WRITE_def)
  have e2: "emitted (write_datetime d dt) g =
      start_calls d @ write_calls d 0xBE @
      (concat (map (write_calls d) (map bcd [second dt, minute dt, hour dt, day dt, month dt,
         isoweekday dt, year dt mod 100] @ [0, 0])) @ end_calls d)"
    by (simp add: emitted_write_datetime encode_regs_bcd [OF assms])
  have e1: "emitted (read_datetime d) g =
      start_calls d @ write_calls d 0xBF @ (concat (replicate 7 (read_calls d)) @ end_calls d)"
    by (simp add: emitted_read_datetime)
  have e3: "emitted (read_ram d) g =
      start_calls d @ write_calls d 0xFF @ (concat (replicate 31 (read_calls d)) @ end_calls d)"
    by (simp add: emitted_read_ram)
  have e4: "emitted (write_ram d ram) g =
      start_calls d @ write_calls d 0xFE @ (concat (map (write_calls d) (take 31 ram)) @ end_calls d)"
    by (simp add: emitted_write_ram)
  have ops: "(let first = (\<lambda>cmd :: int.
                  [Output (clk_pin d) LOW, Output (rst_pin d) HIGH, Setup [io_pin d] OUT None] @
                  concat (map (\<lambda>i. [Output (clk_pin d) LOW,
                                     Output (io_pin d) (of_bool (bit cmd i)),
                                     Output (clk_pin d) HIGH]) [0..<8]))
           in take 27 (emitted (read_datetime d) g) = first 0xBF
            \<and> take 27 (emitted (write_datetime d dt) g) = first 0xBE
            \<and> take 27 (emitted (read_ram d) g) = first 0xFF
            \<and> take 27 (emitted (write_ram d ram) g) = first 0xFE)"
    unfolding Let_def by (simp only: e1 e2 e3 e4 first_calls)
  have con: "(let byte = (\<lambda>b :: int.
                  Setup [io] OUT None #
                  concat (map (\<lambda>i. [Output clk LOW, Output io (of_bool (bit b i)),
                                     Output clk HIGH]) [0..<8]));
               tx = (\<lambda>bs. [Output clk LOW, Output rst HIGH] @ concat (map byte bs) @
                           [Setup [io] IN None, Output clk LOW, Output rst LOW])
           in emitted (init clk io rst mode) g =
                [Setmode mode, Setup [clk, rst] OUT (Some LOW)] @ tx [0x8E, 0x00] @ tx [0x90, 0x00])"
    unfolding Let_def
    by (simp only: emitted_init start_calls_def end_calls_def write_calls_bits ds1302.simps
        list.map concat.simps append_Cons append_Nil append_assoc append_Nil2)
  show ?thesis
    using k ops con by blast
qed

text \<open>The instance 2024-01-15 10:30:45 for the date written, on the default pins.\<close>

theorem command_bytes_witness:
  "valid_datetime \<lparr>year = 2024, month = 1, day = 15, hour = 10, minute = 30, second = 45, microsecond = 0\<rparr>
   \<and> take 27 (emitted (write_datetime \<lparr>clk_pin = 4, io_pin = 17, rst_pin = 27\<rparr>
          \<lparr>year = 2024, month = 1, day = 15, hour = 10, minute = 30, second = 45, microsecond = 0\<rparr>)
          \<lparr>calls = [], feed = (\<lambda>n. False)\<rparr>) =
       [Output 4 LOW, Output 27 HIGH, Setup [17] OUT None] @
       concat (map (\<lambda>i. [Output 4 LOW, Output 17 (of_bool (bit (0xBE :: int) i)), Output 4 HIGH])
                 [0..<8])"
proof -
  have v: "valid_datetime \<lparr>year = 2024, month = 1, day = 15, hour = 10, minute = 30, second = 45, microsecond = 0\<rparr>"
    by code_simp
  note t = command_bytes [OF v, of "\<lparr>clk_pin = 4, io_pin = 17, rst_pin = 27\<rparr>"
        "\<lparr>calls = [], feed = (\<lambda>n. False)\<rparr>", unfolded Let_def ds1302.simps]
  show ?thesis
    using v t by blast
qed

lemma take_one_start: "take 1 (start_calls d @ rest) = [Output (clk_pin d) LOW]"
  by (simp add: start_calls_def)

text \<open>
  C8, as the driver has it. Teardown is one \<^verbatim>\<open>cleanup\<close> call and records nothing in the
  driver, and no data operation tests a lifecycle state: called after teardown, each of
  the four operations goes straight to the pins, its first call being the clock low of
  \<^verbatim>\<open>_start_tx\<close>.
\<close>

theorem no_lifecycle_gate:
  assumes "valid_datetime dt"
  shows "del d g = g\<lparr>calls := calls g @ [Cleanup [io_pin d, clk_pin d, rst_pin d]]\<rparr>
       \<and> take 1 (emitted (read_datetime d) (del d g)) = [Output (clk_pin d) LOW]
       \<and> take 1 (emitted (write_datetime d dt) (del d g)) = [Output (clk_pin d) LOW]
       \<and> take 1 (emitted (read_ram d) (del d g)) = [Output (clk_pin d) LOW]
       \<and> take 1 (emitted (write_ram d ram) (del d g)) = [Output (clk_pin d) LOW]"
proof -
  have 0: "del d g = g\<lparr>calls := calls g @ [Cleanup [io_pin d, clk_pin d, rst_pin d]]\<rparr>"
    by (simp add: del_def gpio_cleanup_def)
  have 1: "take 1 (emitted (read_datetime d) h) = [Output (clk_pin d) LOW]" for h
    by (simp only: emitted_read_datetime take_one_start)
  have 2: "take 1 (emitted (write_datetime d dt) h) = [Output (clk_pin d) LOW]" for h
    by (simp only: emitted_write_datetime encode_regs_bcd [OF assms] sum.case take_one_start)
  have 3: "take 1 (emitted (read_ram d) h) = [Output (clk_pin d) LOW]" for h
    by (simp only: emitted_read_ram take_one_start)
  have 4: "take 1 (emitted (write_ram d ram) h) = [Output (clk_pin d) LOW]" for h
    by (simp only: emitted_write_ram take_one_start)
  show ?thesis
    using 0 1 2 3 4 by blast
qed

text \<open>The instance after the constructor and teardown on the default pins.\<close>

theorem no_lifecycle_gate_witness:
  "valid_datetime \<lparr>year = 2024, month = 1, day = 15, hour = 10, minute = 30, second = 45, microsecond = 0\<rparr>
   \<and> take 1 (emitted (write_datetime \<lparr>clk_pin = 4, io_pin = 17, rst_pin = 27\<rparr>
          \<lparr>year = 2024, month = 1, day = 15, hour = 10, minute = 30, second = 45, microsecond = 0\<rparr>)
          (del \<lparr>clk_pin = 4, io_pin = 17, rst_pin = 27\<rparr>
             (snd (init 4 17 27 BCM \<lparr>calls = [], feed = (\<lambda>n. False)\<rparr>)))) = [Output 4 LOW]
   \<and> take 1 (emitted (read_datetime \<lparr>clk_pin = 4, io_pin = 17, rst_pin = 27\<rparr>)
          (del \<lparr>clk_pin = 4, io_pin = 17, rst_pin = 27\<rparr>
             (snd (init 4 17 27 BCM \<lparr>calls = [], feed = (\<lambda>n. False)\<rparr>)))) = [Output 4 LOW]"
proof -
  have v: "valid_datetime \<lparr>year = 2024, month = 1, day = 15, hour = 10, minute = 30, second = 45, microsecond = 0\<rparr>"
    by code_simp
  note t = no_lifecycle_gate [OF v, of "\<lparr>clk_pin = 4, io_pin = 17, rst_pin = 27\<rparr>"
        "snd (init 4 17 27 BCM \<lparr>calls = [], feed = (\<lambda>n. False)\<rparr>)", unfolded ds1302.simps]
  show ?thesis
    using v t by blast
qed

end
